(* ===== verification/Prelude.thy ===== *)
theory Prelude
  imports Main "HOL-Library.Word" "HOL-Library.Sublist"
begin

text \<open>
  Shared vocabulary of the development: the integer types of the Rust sources, fallible stateful
  programs (an \<open>async fn\<close> that mutates a locked state and returns a \<open>Result\<close>), the preservation
  calculus for them, and the facts on lists that the components share.
\<close>

named_theorems prog_simps \<open>unfolding rules of the program combinators\<close>
named_theorems keeps_intros \<open>preservation rules of the program combinators and of the operations\<close>

section \<open>Integer types\<close>

type_synonym u8 = "8 word"
type_synonym u16 = "16 word"
type_synonym u32 = "32 word"
type_synonym u64 = "64 word"

text \<open>
  A \<open>usize\<close> is a natural number below \<^term>\<open>(2::nat) ^ 64\<close>. Vector lengths and indices checked
  against them never overflow and are plain \<^typ>\<open>nat\<close>; where an operand comes from the network or
  where the subtrahend may be larger, the release profile's wrap-around is written out with the
  two operations below.
\<close>

type_synonym usize = nat

definition usize_add :: "usize \<Rightarrow> usize \<Rightarrow> usize" where
  "usize_add a b = (a + b) mod 2 ^ 64"

definition usize_sub :: "usize \<Rightarrow> usize \<Rightarrow> usize" where
  "usize_sub a b = (if b \<le> a then a - b else 2 ^ 64 + a - b)"

lemma usize_add_exact [simp]: "a + b < 2 ^ 64 \<Longrightarrow> usize_add a b = a + b"
  by (simp add: usize_add_def)

lemma usize_sub_exact [simp]: "b \<le> a \<Longrightarrow> usize_sub a b = a - b"
  by (simp add: usize_sub_def)

text \<open>A 64-bit counter that has been increased fewer than \<^term>\<open>(2::nat) ^ 64\<close> times does not wrap.\<close>

lemma unat_succ_bound:
  fixes t :: u64
  assumes "unat t \<le> k" and "Suc k < 2 ^ 64"
  shows "unat (t + 1) = Suc (unat t)" and "t < t + 1"
proof -
  have "unat t + 1 < 2 ^ 64" using assms by simp
  then show "unat (t + 1) = Suc (unat t)" by (simp add: unat_word_ariths)
  then show "t < t + 1" by (simp add: word_less_nat_alt)
qed

section \<open>Fallible stateful programs\<close>

text \<open>
  A program takes the state and returns a result (\<^term>\<open>Inl\<close> the error, \<^term>\<open>Inr\<close> the value) and
  the state it leaves behind: the \<open>?\<close> operator of the sources returns early and keeps every
  mutation made before it.
\<close>

type_synonym ('s, 'e, 'a) prog = "'s \<Rightarrow> ('e + 'a) \<times> 's"

definition ok :: "'a \<Rightarrow> ('s, 'e, 'a) prog" where
  "ok x = (\<lambda>s. (Inr x, s))"

definition fail :: "'e \<Rightarrow> ('s, 'e, 'a) prog" where
  "fail e = (\<lambda>s. (Inl e, s))"

definition bindE :: "('s, 'e, 'a) prog \<Rightarrow> ('a \<Rightarrow> ('s, 'e, 'b) prog) \<Rightarrow> ('s, 'e, 'b) prog" where
  "bindE m f = (\<lambda>s. case m s of (Inl e, s') \<Rightarrow> (Inl e, s') | (Inr x, s') \<Rightarrow> f x s')"

definition gets :: "('s \<Rightarrow> 'a) \<Rightarrow> ('s, 'e, 'a) prog" where
  "gets f = (\<lambda>s. (Inr (f s), s))"

definition modify :: "('s \<Rightarrow> 's) \<Rightarrow> ('s, 'e, unit) prog" where
  "modify f = (\<lambda>s. (Inr (), f s))"

text \<open>A value that already is a result: \<open>res?\<close>.\<close>

definition of_sum :: "'e + 'a \<Rightarrow> ('s, 'e, 'a) prog" where
  "of_sum r = (\<lambda>s. (r, s))"

text \<open>\<open>opt.ok_or(e)?\<close>.\<close>

definition of_opt :: "'e \<Rightarrow> 'a option \<Rightarrow> ('s, 'e, 'a) prog" where
  "of_opt e r = (case r of None \<Rightarrow> fail e | Some x \<Rightarrow> ok x)"

text \<open>Running a program on a component of the state.\<close>

definition zoom :: "('s \<Rightarrow> 'c) \<Rightarrow> ('c \<Rightarrow> 's \<Rightarrow> 's) \<Rightarrow> ('c, 'e, 'a) prog \<Rightarrow> ('s, 'e, 'a) prog" where
  "zoom get put m = (\<lambda>s. case m (get s) of (r, c) \<Rightarrow> (r, put c s))"

text \<open>\<open>map_err\<close>.\<close>

definition map_err :: "('e \<Rightarrow> 'f) \<Rightarrow> ('s, 'e, 'a) prog \<Rightarrow> ('s, 'f, 'a) prog" where
  "map_err f m = (\<lambda>s. case m s of (Inl e, s') \<Rightarrow> (Inl (f e), s') | (Inr x, s') \<Rightarrow> (Inr x, s'))"

lemma ok_app [simp, prog_simps]: "ok x s = (Inr x, s)"
  by (simp add: ok_def)

lemma fail_app [simp, prog_simps]: "fail e s = (Inl e, s)"
  by (simp add: fail_def)

lemma gets_app [simp, prog_simps]: "gets f s = (Inr (f s), s)"
  by (simp add: gets_def)

lemma modify_app [simp, prog_simps]: "modify f s = (Inr (), f s)"
  by (simp add: modify_def)

lemma of_sum_app [simp, prog_simps]: "of_sum r s = (r, s)"
  by (simp add: of_sum_def)

lemma of_opt_simps [simp, prog_simps]: "of_opt e None = fail e" "of_opt e (Some x) = ok x"
  by (simp_all add: of_opt_def)

lemma bindE_app [prog_simps]:
  "bindE m f s = (case m s of (Inl e, s') \<Rightarrow> (Inl e, s') | (Inr x, s') \<Rightarrow> f x s')"
  by (simp add: bindE_def)

lemma bindE_simps [simp]:
  "bindE (ok x) f = f x"
  "bindE (fail e) f = fail e"
  "bindE (gets g) f s = f (g s) s"
  "bindE (modify h) f' s = f' () (h s)"
  "bindE (\<lambda>a. (Inr (k a), h a)) f'' s = f'' (k s) (h s)"
  by (simp_all add: bindE_def fun_eq_iff)

lemma run_eqI: "fst x = r \<Longrightarrow> x = (r, snd x)"
  by (cases x) simp

lemma bindE_Inr: "m s = (Inr x, s') \<Longrightarrow> bindE m f s = f x s'"
  by (simp add: bindE_def)

lemma bindE_Inl: "m s = (Inl e, s') \<Longrightarrow> bindE m f s = (Inl e, s')"
  by (simp add: bindE_def)

lemma bindE_total: "fst (m s) = Inr x \<Longrightarrow> bindE m f s = f x (snd (m s))"
  by (cases "m s") (simp add: bindE_def)

lemma bindE_InrD:
  assumes "bindE m f s = (Inr y, t)"
  obtains x s' where "m s = (Inr x, s')" and "f x s' = (Inr y, t)"
  using assms by (auto simp: bindE_def split: prod.splits sum.splits)

lemma bindE_assoc: "bindE (bindE m f) g = bindE m (\<lambda>x. bindE (f x) g)"
  by (auto simp: bindE_def fun_eq_iff split: prod.splits sum.splits)

lemma zoom_app [prog_simps]: "zoom get put m s = (case m (get s) of (r, c) \<Rightarrow> (r, put c s))"
  by (simp add: zoom_def)

lemma map_err_app [prog_simps]:
  "map_err f m s = (case m s of (Inl e, s') \<Rightarrow> (Inl (f e), s') | (Inr x, s') \<Rightarrow> (Inr x, s'))"
  by (simp add: map_err_def)

section \<open>Preservation\<close>

text \<open>
  \<open>keeps R m\<close>: whatever the program returns, also an error, the state it started in and the state
  it leaves are related by \<open>R\<close>. With a reflexive and transitive \<open>R\<close> the rules compose along the
  program, so a monotonicity statement on an operation is proved from its basic updates. An
  invariant \<open>I\<close> is the relation \<open>\<lambda>s t. I s \<longrightarrow> I t\<close>.
\<close>

definition keeps :: "('s \<Rightarrow> 's \<Rightarrow> bool) \<Rightarrow> ('s, 'e, 'a) prog \<Rightarrow> bool" where
  "keeps R m \<longleftrightarrow> (\<forall>s. R s (snd (m s)))"

definition preorder_rel :: "('s \<Rightarrow> 's \<Rightarrow> bool) \<Rightarrow> bool" where
  "preorder_rel R \<longleftrightarrow> reflp R \<and> transp R"

lemma keepsD: "keeps R m \<Longrightarrow> m s = (r, t) \<Longrightarrow> R s t"
  by (metis keeps_def snd_conv)

lemma keepsI: "(\<And>s r t. m s = (r, t) \<Longrightarrow> R s t) \<Longrightarrow> keeps R m"
  by (metis keeps_def prod.collapse)

lemma keeps_ok [keeps_intros]: "preorder_rel R \<Longrightarrow> keeps R (ok x)"
  by (simp add: keeps_def preorder_rel_def reflp_def)

lemma keeps_fail [keeps_intros]: "preorder_rel R \<Longrightarrow> keeps R (fail e)"
  by (simp add: keeps_def preorder_rel_def reflp_def)

lemma keeps_gets [keeps_intros]: "preorder_rel R \<Longrightarrow> keeps R (gets f)"
  by (simp add: keeps_def preorder_rel_def reflp_def)

lemma keeps_of_sum [keeps_intros]: "preorder_rel R \<Longrightarrow> keeps R (of_sum r)"
  by (simp add: keeps_def preorder_rel_def reflp_def)

lemma keeps_of_opt [keeps_intros]: "preorder_rel R \<Longrightarrow> keeps R (of_opt e r)"
  by (cases r) (simp_all add: keeps_ok keeps_fail)

lemma keeps_modify [keeps_intros]: "(\<And>s. R s (f s)) \<Longrightarrow> keeps R (modify f)"
  by (simp add: keeps_def)

lemma keeps_bindE [keeps_intros]:
  assumes "preorder_rel R" and "keeps R m" and "\<And>x. keeps R (f x)"
  shows "keeps R (bindE m f)"
proof (rule keepsI)
  fix s r t
  assume run: "bindE m f s = (r, t)"
  obtain q u where m: "m s = (q, u)" by fastforce
  from keepsD [OF assms(2) m] have su: "R s u" .
  show "R s t"
  proof (cases q)
    case (Inl e)
    with run m su show ?thesis by (simp add: bindE_def)
  next
    case (Inr x)
    with run m have "f x u = (r, t)" by (simp add: bindE_def)
    with keepsD [OF assms(3)] have "R u t" .
    with su assms(1) show ?thesis by (auto simp: preorder_rel_def dest: transpD)
  qed
qed

lemma keeps_if [keeps_intros]: "keeps R m \<Longrightarrow> keeps R n \<Longrightarrow> keeps R (if b then m else n)"
  by simp

lemma preorder_rel_inv [simp]: "preorder_rel (\<lambda>s t. I s \<longrightarrow> I t)"
  by (auto simp: preorder_rel_def reflp_def transp_def)

section \<open>Transition systems\<close>

text \<open>\<open>reaches init step k s\<close>: \<open>s\<close> is reached from an initial state in \<open>k\<close> steps.\<close>

inductive reaches :: "('s \<Rightarrow> bool) \<Rightarrow> ('s \<Rightarrow> 's \<Rightarrow> bool) \<Rightarrow> nat \<Rightarrow> 's \<Rightarrow> bool"
  for init :: "'s \<Rightarrow> bool" and step :: "'s \<Rightarrow> 's \<Rightarrow> bool" where
  reaches_init: "init s \<Longrightarrow> reaches init step 0 s"
| reaches_step: "reaches init step k s \<Longrightarrow> step s t \<Longrightarrow> reaches init step (Suc k) t"

lemma reaches_weaken: "reaches init step k s \<Longrightarrow> (\<And>s. init s \<Longrightarrow> init' s) \<Longrightarrow> reaches init' step k s"
  by (induction rule: reaches.induct) (auto intro: reaches.intros)

text \<open>
  An invariant that may depend on the number of steps taken, up to a limit: counters of machine width
  grow by at most one in a step, so below the limit they do not wrap.
\<close>

locale counted_system =
  fixes init :: "'s \<Rightarrow> bool"
    and step :: "'s \<Rightarrow> 's \<Rightarrow> bool"
    and inv :: "nat \<Rightarrow> 's \<Rightarrow> bool"
    and limit :: nat
  assumes inv_init: "init s \<Longrightarrow> inv 0 s"
    and inv_step: "inv k s \<Longrightarrow> Suc k < limit \<Longrightarrow> step s t \<Longrightarrow> inv (Suc k) t"
begin

lemma inv_reaches:
  assumes "reaches init step k s" and "k < limit"
  shows "inv k s"
  using assms by (induction rule: reaches.induct) (auto intro: inv_init inv_step)

end

section \<open>Lists\<close>

text \<open>\<open>Vec::insert\<close>: panics (\<^term>\<open>None\<close>) beyond the end.\<close>

definition vec_insert :: "nat \<Rightarrow> 'a \<Rightarrow> 'a list \<Rightarrow> 'a list option" where
  "vec_insert i x xs = (if i \<le> length xs then Some (take i xs @ x # drop i xs) else None)"

text \<open>\<open>slice.get(i)\<close>.\<close>

definition slice_get :: "'a list \<Rightarrow> nat \<Rightarrow> 'a option" where
  "slice_get xs i = (if i < length xs then Some (xs ! i) else None)"

text \<open>\<open>slice.last()\<close>.\<close>

definition slice_last :: "'a list \<Rightarrow> 'a option" where
  "slice_last xs = (if xs = [] then None else Some (last xs))"

text \<open>\<open>slice.get(a..)\<close> and \<open>slice.get(0..b)\<close>: out of range is \<^term>\<open>None\<close>.\<close>

definition slice_from :: "'a list \<Rightarrow> nat \<Rightarrow> 'a list option" where
  "slice_from xs a = (if a \<le> length xs then Some (drop a xs) else None)"

definition slice_upto :: "'a list \<Rightarrow> nat \<Rightarrow> 'a list option" where
  "slice_upto xs b = (if b \<le> length xs then Some (take b xs) else None)"

text \<open>\<open>opt.unwrap_or(d)\<close>.\<close>

definition unwrap_or :: "'a option \<Rightarrow> 'a \<Rightarrow> 'a" where
  "unwrap_or r d = (case r of None \<Rightarrow> d | Some x \<Rightarrow> x)"

lemma unwrap_or_simps [simp]: "unwrap_or None d = d" "unwrap_or (Some x) d = x"
  by (simp_all add: unwrap_or_def)

lemma slice_get_Some [simp]: "i < length xs \<Longrightarrow> slice_get xs i = Some (xs ! i)"
  by (simp add: slice_get_def)

lemma slice_last_Some [simp]: "xs \<noteq> [] \<Longrightarrow> slice_last xs = Some (last xs)"
  by (simp add: slice_last_def)

lemma slice_from_unwrap [simp]: "unwrap_or (slice_from xs a) [] = drop a xs"
  by (simp add: slice_from_def)

lemma slice_upto_Some [simp]: "b \<le> length xs \<Longrightarrow> slice_upto xs b = Some (take b xs)"
  by (simp add: slice_upto_def)

lemma vec_insert_Some [simp]:
  "i \<le> length xs \<Longrightarrow> vec_insert i x xs = Some (take i xs @ x # drop i xs)"
  by (simp add: vec_insert_def)

end
