(* ===== verification/Raft_Node.thy ===== *)
theory Raft_Node
  imports Prelude
begin

text \<open>
  One Raft server: the state of \<open>src/raft2/src/lib.rs\<close> and its operations. The address type \<open>'a\<close>
  stands for \<open>SocketAddr\<close>, the handle type \<open>'f\<close> for the open state file. The functions that hold
  the state lock from beginning to end (\<open>append_entries\<close>, \<open>request_vote\<close>, \<open>get_log\<close>) are one
  program each; \<open>send_append_entries\<close> and \<open>open_election\<close> drop the lock around their network
  calls and are one program per stretch between two releases, composed in \<open>Raft_Cluster\<close>.
  The JSON library and the file operations are parameters, the record \<open>raft_io\<close>.
\<close>

section \<open>State\<close>

record Log =
  log_text :: string
  log_term :: u64

record 'a Persistent =
  current_term :: u64
  voted_for :: "'a option"
  logs :: "Log list"

text \<open>The two maps of a leader are behind their own locks in the source; here they are values.\<close>

datatype 'a Role =
    Follower
  | Candidate
  | Leader "'a \<rightharpoonup> usize" "'a \<rightharpoonup> usize"

record ('a, 'f) VariableState =
  role :: "'a Role"
  state_file :: 'f
  persistent :: "'a Persistent"
  commit_index :: usize

text \<open>
  \<open>servers\<close> is a hash set: a list of distinct addresses in some iteration order.
  \<open>timeout_cancel\<close> counts the messages sent on the broadcast channel \<open>timeout_cancel_tx\<close>.
  \<open>append_entries_lock\<close> has no counterpart: the source binds its guard with \<open>let _\<close>, which
  releases it in the same statement.
\<close>

record ('a, 'f) State =
  state :: "('a, 'f) VariableState"
  timeout_cancel :: nat
  servers :: "'a list"
  me :: 'a

datatype raft_error = Anyhow string | Panic

type_synonym ('a, 'f, 'r) raft = "(('a, 'f) State, raft_error, 'r) prog"

text \<open>What the server uses of \<open>serde_json\<close> and of the file system.\<close>

record ('a, 'f) raft_io =
  to_string_pretty :: "'a Persistent \<Rightarrow> string + string"
  to_vec :: "'a Persistent \<Rightarrow> string + string"
  from_str :: "string \<Rightarrow> string + 'a Persistent"
  path_exists :: "string \<Rightarrow> bool"
  open_file :: "string \<Rightarrow> string + 'f"
  create_file :: "string \<Rightarrow> string + 'f"
  read_to_string :: "'f \<Rightarrow> (string + string) \<times> 'f"
  seek_start :: "nat \<Rightarrow> 'f \<Rightarrow> (string + nat) \<times> 'f"
  set_len :: "nat \<Rightarrow> 'f \<Rightarrow> (string + unit) \<times> 'f"
  write_all :: "string \<Rightarrow> 'f \<Rightarrow> (string + unit) \<times> 'f"

definition is_follower :: "'a Role \<Rightarrow> bool" where
  "is_follower r = (case r of Follower \<Rightarrow> True | _ \<Rightarrow> False)"

definition is_candidate :: "'a Role \<Rightarrow> bool" where
  "is_candidate r = (case r of Candidate \<Rightarrow> True | _ \<Rightarrow> False)"

definition is_leader :: "'a Role \<Rightarrow> bool" where
  "is_leader r = (case r of Leader _ _ \<Rightarrow> True | _ \<Rightarrow> False)"

lemma role_tests [simp]:
  "is_follower r \<longleftrightarrow> r = Follower"
  "is_candidate r \<longleftrightarrow> r = Candidate"
  "is_leader r \<longleftrightarrow> (\<exists>n m. r = Leader n m)"
  by (cases r; simp add: is_follower_def is_candidate_def is_leader_def)+

section \<open>Messages\<close>

record AppendEntriesRequest =
  ae_term :: u64
  prev_log_index :: usize
  prev_log_term :: u64
  entries :: "Log list"
  leader_commit :: usize

record AppendEntriesResponse =
  success :: bool

record 'a RequestVoteRequest =
  rv_term :: u64
  candidate_id :: 'a
  last_log_index :: usize
  last_log_term :: u64

record RequestVoteResponse =
  resp_term :: u64
  vote_granted :: bool

record GetLogResponse =
  commited :: "Log list"
  all_logs :: "Log list"

section \<open>Persistence\<close>

text \<open>A step on the file handle; its error becomes an \<open>anyhow\<close> error.\<close>

definition on_file :: "('f \<Rightarrow> (string + 'r) \<times> 'f) \<Rightarrow> (('a, 'f) VariableState, raft_error, 'r) prog" where
  "on_file f = zoom state_file (\<lambda>h v. v\<lparr>state_file := h\<rparr>) (map_err Anyhow f)"

definition lift_anyhow :: "string + 'r \<Rightarrow> ('s, raft_error, 'r) prog" where
  "lift_anyhow r = map_err Anyhow (of_sum r)"

definition save_persistent :: "('a, 'f) raft_io \<Rightarrow> (('a, 'f) VariableState, raft_error, unit) prog" where
  "save_persistent io =
     bindE (gets persistent) (\<lambda>p.
     bindE (lift_anyhow (to_string_pretty io p)) (\<lambda>s.
     bindE (on_file (seek_start io 0)) (\<lambda>_.
     bindE (on_file (set_len io (length s))) (\<lambda>_.
     on_file (write_all io s)))))"

text \<open>The programs below run on the whole \<open>State\<close>; this runs one on the part behind the lock.\<close>

definition shared :: "(('a, 'f) VariableState, raft_error, 'r) prog \<Rightarrow> ('a, 'f, 'r) raft" where
  "shared m = zoom state (\<lambda>v st. st\<lparr>state := v\<rparr>) m"

definition init_persistent :: "'a Persistent" where
  "init_persistent = \<lparr>current_term = 0, voted_for = None, logs = [\<lparr>log_text = ''init'', log_term = 0\<rparr>]\<rparr>"

definition from_file ::
    "('a, 'f) raft_io \<Rightarrow> string \<Rightarrow> 'a \<Rightarrow> 'a list \<Rightarrow> raft_error + ('a, 'f) State" where
  "from_file io path self srv =
     (let mk = (\<lambda>p h. \<lparr>state = \<lparr>role = Follower, state_file = h, persistent = p, commit_index = 0\<rparr>,
                      timeout_cancel = 0, servers = srv, me = self\<rparr>)
      in if path_exists io path
         then (case open_file io path of
                 Inl e \<Rightarrow> Inl (Anyhow e)
               | Inr h \<Rightarrow> (case read_to_string io h of
                   (Inl e, _) \<Rightarrow> Inl (Anyhow e)
                 | (Inr s, h') \<Rightarrow> (case from_str io s of
                     Inl e \<Rightarrow> Inl (Anyhow e)
                   | Inr p \<Rightarrow> Inr (mk p h'))))
         else (case create_file io path of
                 Inl e \<Rightarrow> Inl (Anyhow e)
               | Inr h \<Rightarrow> (case to_vec io init_persistent of
                   Inl e \<Rightarrow> Inl (Anyhow e)
                 | Inr s \<Rightarrow> (case write_all io s h of
                     (Inl e, _) \<Rightarrow> Inl (Anyhow e)
                   | (Inr _, h') \<Rightarrow> Inr (mk init_persistent h')))))"

section \<open>Timeout\<close>

text \<open>
  \<open>send\<close> on a broadcast channel fails only without receivers, and the state itself holds one.
\<close>

definition putoff_timeout :: "('a, 'f, unit) raft" where
  "putoff_timeout = modify (\<lambda>st. st\<lparr>timeout_cancel := Suc (timeout_cancel st)\<rparr>)"

text \<open>Accessors used by every handler.\<close>

abbreviation pers :: "('a, 'f) State \<Rightarrow> 'a Persistent" where
  "pers st \<equiv> persistent (state st)"

abbreviation cur_term :: "('a, 'f) State \<Rightarrow> u64" where
  "cur_term st \<equiv> current_term (pers st)"

abbreviation the_logs :: "('a, 'f) State \<Rightarrow> Log list" where
  "the_logs st \<equiv> logs (pers st)"

abbreviation role_of :: "('a, 'f) State \<Rightarrow> 'a Role" where
  "role_of st \<equiv> role (state st)"

abbreviation commit_of :: "('a, 'f) State \<Rightarrow> usize" where
  "commit_of st \<equiv> commit_index (state st)"

definition upd_shared :: "(('a, 'f) VariableState \<Rightarrow> ('a, 'f) VariableState) \<Rightarrow> ('a, 'f, unit) raft" where
  "upd_shared f = modify (\<lambda>st. st\<lparr>state := f (state st)\<rparr>)"

definition upd_pers :: "('a Persistent \<Rightarrow> 'a Persistent) \<Rightarrow> ('a, 'f, unit) raft" where
  "upd_pers f = upd_shared (\<lambda>v. v\<lparr>persistent := f (persistent v)\<rparr>)"

section \<open>Handlers\<close>

text \<open>\<open>resize_with(n, || unreachable!())\<close>: shrinks, and panics if it had to grow.\<close>

definition resize_unreachable :: "nat \<Rightarrow> 'x list \<Rightarrow> 'x list option" where
  "resize_unreachable n xs = (if n \<le> length xs then Some (take n xs) else None)"

text \<open>The insertion loop of \<open>append_entries\<close>: \<open>offset\<close> counts the entries already inserted.\<close>

fun insert_entries :: "nat \<Rightarrow> nat \<Rightarrow> Log list \<Rightarrow> Log list \<Rightarrow> Log list option" where
  "insert_entries prev offset [] ls = Some ls"
| "insert_entries prev offset (e # es) ls =
     (case vec_insert (offset + prev + 1) e ls of
        None \<Rightarrow> None
      | Some ls' \<Rightarrow> insert_entries prev (Suc offset) es ls')"

definition turn_to_follower :: "('a, 'f) raft_io \<Rightarrow> u64 \<Rightarrow> ('a, 'f, unit) raft" where
  "turn_to_follower io t =
     bindE (upd_shared (\<lambda>v. v\<lparr>role := Follower\<rparr>)) (\<lambda>_.
     bindE (upd_pers (\<lambda>p. p\<lparr>current_term := t\<rparr>)) (\<lambda>_.
     bindE (upd_pers (\<lambda>p. p\<lparr>voted_for := None\<rparr>)) (\<lambda>_.
     shared (save_persistent io))))"

text \<open>The end of \<open>append_entries\<close>, once the request is accepted.\<close>

definition store_entries ::
    "('a, 'f) raft_io \<Rightarrow> AppendEntriesRequest \<Rightarrow> ('a, 'f, AppendEntriesResponse) raft" where
  "store_entries io req =
     bindE (gets the_logs) (\<lambda>ls.
     bindE (if length ls > prev_log_index req + 1 + length (entries req)
            then bindE (of_opt Panic (resize_unreachable
                          (prev_log_index req + 1 + length (entries req)) ls))
                   (\<lambda>ls'. upd_pers (\<lambda>p. p\<lparr>logs := ls'\<rparr>))
            else ok ()) (\<lambda>_.
     bindE (gets the_logs) (\<lambda>ls.
     bindE (of_opt Panic (insert_entries (prev_log_index req) 0 (entries req) ls)) (\<lambda>ls'.
     bindE (upd_pers (\<lambda>p. p\<lparr>logs := ls'\<rparr>)) (\<lambda>_.
     bindE (gets commit_of) (\<lambda>ci.
     bindE (if leader_commit req > ci
            then upd_shared (\<lambda>v. v\<lparr>commit_index := min (leader_commit req) (usize_sub (length ls') 1)\<rparr>)
            else ok ()) (\<lambda>_.
     bindE (shared (save_persistent io)) (\<lambda>_.
     ok \<lparr>success = True\<rparr>))))))))"

text \<open>
  The checks after the term has been settled. The short-circuit \<open>||\<close> of the source is the nesting of the
  two tests: only behind the first one is the log indexed, and an index out of range is a panic.
\<close>

definition check_entries ::
    "('a, 'f) raft_io \<Rightarrow> AppendEntriesRequest \<Rightarrow> ('a, 'f, AppendEntriesResponse) raft" where
  "check_entries io req =
     bindE (gets role_of) (\<lambda>r.
     if \<not> is_follower r then ok \<lparr>success = False\<rparr>
     else bindE (gets the_logs) (\<lambda>ls.
     if prev_log_index req \<ge> length ls then ok \<lparr>success = False\<rparr>
     else bindE (of_opt Panic (slice_get ls (prev_log_index req))) (\<lambda>e.
     if log_term e \<noteq> prev_log_term req then ok \<lparr>success = False\<rparr>
     else store_entries io req)))"

definition append_entries ::
    "('a, 'f) raft_io \<Rightarrow> AppendEntriesRequest \<Rightarrow> ('a, 'f, AppendEntriesResponse) raft" where
  "append_entries io req =
     bindE (gets cur_term) (\<lambda>cur.
     if ae_term req < cur then ok \<lparr>success = False\<rparr>
     else bindE putoff_timeout (\<lambda>_.
     bindE (if ae_term req > cur then turn_to_follower io (ae_term req) else ok ()) (\<lambda>_.
     check_entries io req)))"

definition log_condition :: "'a RequestVoteRequest \<Rightarrow> Log list \<Rightarrow> bool" where
  "log_condition req ls =
     (last_log_term req > unwrap_or (map_option log_term (slice_last ls)) 0 \<or>
      usize_add (last_log_index req) 1 \<ge> length ls)"

text \<open>The decision after the term has been settled.\<close>

definition decide_vote ::
    "('a, 'f) raft_io \<Rightarrow> 'a RequestVoteRequest \<Rightarrow> ('a, 'f, RequestVoteResponse) raft" where
  "decide_vote io req =
     bindE (gets pers) (\<lambda>p.
     if \<not> log_condition req (logs p)
     then bindE (if Some (candidate_id req) = voted_for p
                 then bindE (upd_pers (\<lambda>p. p\<lparr>voted_for := None\<rparr>)) (\<lambda>_. shared (save_persistent io))
                 else ok ()) (\<lambda>_.
          bindE (gets cur_term) (\<lambda>c.
          ok \<lparr>resp_term = max (rv_term req) c, vote_granted = False\<rparr>))
     else let granted = unwrap_or (map_option (\<lambda>c. c = candidate_id req) (voted_for p)) True in
          bindE (if granted
                 then bindE putoff_timeout (\<lambda>_.
                      bindE (upd_pers (\<lambda>p. p\<lparr>voted_for := Some (candidate_id req)\<rparr>)) (\<lambda>_.
                      shared (save_persistent io)))
                 else ok ()) (\<lambda>_.
          bindE (gets cur_term) (\<lambda>c.
          ok \<lparr>resp_term = max (rv_term req) c, vote_granted = granted\<rparr>)))"

definition request_vote ::
    "('a, 'f) raft_io \<Rightarrow> 'a RequestVoteRequest \<Rightarrow> ('a, 'f, RequestVoteResponse) raft" where
  "request_vote io req =
     bindE (gets cur_term) (\<lambda>cur.
     if rv_term req < cur then ok \<lparr>resp_term = rv_term req, vote_granted = False\<rparr>
     else bindE (if rv_term req > cur then turn_to_follower io (rv_term req) else ok ()) (\<lambda>_.
     decide_vote io req))"

definition get_log :: "('a, 'f) State \<Rightarrow> GetLogResponse" where
  "get_log st = \<lparr>commited = unwrap_or (slice_upto (the_logs st) (usize_add (commit_of st) 1)) [],
                 all_logs = the_logs st\<rparr>"

section \<open>Sending entries\<close>

text \<open>The part under the write lock: the caller must lead, then the new texts are logged.\<close>

definition send_append_begin :: "('a, 'f) raft_io \<Rightarrow> string list \<Rightarrow> ('a, 'f, unit) raft" where
  "send_append_begin io append_logs =
     bindE (gets role_of) (\<lambda>r.
     if \<not> is_leader r then fail (Anyhow ''i_am_not_leader'')
     else bindE (gets cur_term) (\<lambda>t.
     bindE (upd_pers (\<lambda>p. p\<lparr>logs := logs p @ map (\<lambda>x. \<lparr>log_text = x, log_term = t\<rparr>) append_logs\<rparr>)) (\<lambda>_.
     shared (save_persistent io))))"

text \<open>
  The first stretch of the per-server task: \<^term>\<open>Inl b\<close> when the task returns \<open>Ok(b)\<close> without
  sending, \<^term>\<open>Inr req\<close> the request it sends.
\<close>

definition send_append_build :: "'a \<Rightarrow> ('a, 'f, bool + AppendEntriesRequest) raft" where
  "send_append_build addr =
     bindE (gets (\<lambda>st. st)) (\<lambda>st.
     case role_of st of
       Leader nxt mtc \<Rightarrow>
         if addr = me st
         then bindE (upd_shared (\<lambda>v. v\<lparr>role := Leader (nxt(me st \<mapsto> length (the_logs st)))
                                                     (mtc(me st \<mapsto> usize_sub (length (the_logs st)) 1))\<rparr>))
                (\<lambda>_. ok (Inl True))
         else bindE (of_opt (Anyhow '' not found'') (nxt addr)) (\<lambda>n.
              let prev = n - 1 in
              ok (Inr \<lparr>ae_term = cur_term st,
                       prev_log_index = prev,
                       prev_log_term = unwrap_or (map_option log_term (slice_get (the_logs st) prev)) 0,
                       entries = unwrap_or (slice_from (the_logs st) (prev + 1)) [],
                       leader_commit = commit_of st\<rparr>))
     | _ \<Rightarrow> ok (Inl True))"

text \<open>The stretch after the response: \<open>res\<close> is the answer's \<open>success\<close> field.\<close>

definition send_append_reply :: "'a \<Rightarrow> bool \<Rightarrow> ('a, 'f, bool) raft" where
  "send_append_reply addr res =
     bindE (gets (\<lambda>st. st)) (\<lambda>st.
     case role_of st of
       Leader nxt mtc \<Rightarrow>
         bindE (upd_shared (\<lambda>v. v\<lparr>role :=
            (if res then Leader (nxt(addr \<mapsto> length (the_logs st)))
                                (mtc(addr \<mapsto> usize_sub (length (the_logs st)) 1))
             else Leader (case nxt addr of
                            None \<Rightarrow> nxt
                          | Some n \<Rightarrow> nxt(addr \<mapsto> (if n \<noteq> 0 then n - 1 else n))) mtc)\<rparr>))
           (\<lambda>_. ok res)
     | _ \<Rightarrow> ok True)"

text \<open>\<open>join_all\<close> has collected one result per server; the count and the commit.\<close>

definition count_true :: "(raft_error + bool) list \<Rightarrow> nat" where
  "count_true rs = length (filter (\<lambda>r. case r of Inr b \<Rightarrow> b | Inl _ \<Rightarrow> False) rs)"

definition send_append_finish :: "(raft_error + bool) list \<Rightarrow> ('a, 'f, bool) raft" where
  "send_append_finish responses =
     bindE (gets servers) (\<lambda>srv.
     if count_true responses * 2 > length srv
     then bindE (upd_shared (\<lambda>v. v\<lparr>commit_index := usize_sub (length (logs (persistent v))) 1\<rparr>))
            (\<lambda>_. ok True)
     else ok False)"

section \<open>Elections\<close>

text \<open>
  After the random sleep: \<open>rx_ready\<close> says whether the cancel channel delivered a message. The
  result tells whether the election started.
\<close>

definition election_begin :: "('a, 'f) raft_io \<Rightarrow> bool \<Rightarrow> ('a, 'f, bool) raft" where
  "election_begin io rx_ready =
     (if rx_ready then ok False
      else bindE (gets role_of) (\<lambda>r.
      if \<not> is_follower r then ok False
      else bindE putoff_timeout (\<lambda>_.
      bindE (upd_shared (\<lambda>v. v\<lparr>role := Candidate\<rparr>)) (\<lambda>_.
      bindE (upd_pers (\<lambda>p. p\<lparr>current_term := current_term p + 1\<rparr>)) (\<lambda>_.
      bindE (shared (save_persistent io)) (\<lambda>_.
      bindE (upd_pers (\<lambda>p. p\<lparr>voted_for := None\<rparr>)) (\<lambda>_.
      ok True)))))))"

text \<open>The per-server task: \<^term>\<open>None\<close> for the own address, which counts as granted.\<close>

definition election_request :: "('a, 'f) State \<Rightarrow> 'a \<Rightarrow> 'a RequestVoteRequest option" where
  "election_request st addr =
     (if addr = me st then None
      else Some \<lparr>rv_term = cur_term st,
                 candidate_id = me st,
                 last_log_index = usize_sub (length (the_logs st)) 1,
                 last_log_term = unwrap_or (map_option log_term (slice_last (the_logs st))) 0\<rparr>)"

text \<open>The result tells whether the heartbeat loop of a new leader was spawned.\<close>

definition election_finish :: "('a, 'f) raft_io \<Rightarrow> (raft_error + bool) list \<Rightarrow> ('a, 'f, bool) raft" where
  "election_finish io vote_result =
     bindE (gets (\<lambda>st. st)) (\<lambda>st.
     if \<not> is_candidate (role_of st) then ok False
     else if count_true vote_result * 2 > length (servers st)
     then bindE (upd_pers (\<lambda>p. p\<lparr>voted_for := None\<rparr>)) (\<lambda>_.
          bindE (shared (save_persistent io)) (\<lambda>_.
          bindE (upd_shared (\<lambda>v. v\<lparr>role :=
                   Leader (\<lambda>a. if a \<in> set (servers st) then Some (usize_sub (length (the_logs st)) 1) else None)
                          (\<lambda>a. if a \<in> set (servers st) then Some 0 else None)\<rparr>)) (\<lambda>_.
          ok True)))
     else bindE (upd_pers (\<lambda>p. p\<lparr>voted_for := None\<rparr>)) (\<lambda>_.
          bindE (shared (save_persistent io)) (\<lambda>_.
          bindE (upd_shared (\<lambda>v. v\<lparr>role := Follower\<rparr>)) (\<lambda>_.
          ok False))))"

section \<open>The insertion loop and the file step\<close>

lemma insert_entries_eq:
  assumes "prev + offset + 1 \<le> length ls"
  shows "insert_entries prev offset es ls =
    Some (take (prev + offset + 1) ls @ es @ drop (prev + offset + 1) ls)"
  using assms
proof (induction es arbitrary: offset ls)
  case Nil
  then show ?case by simp
next
  case (Cons e es)
  let ?k = "prev + offset + 1"
  let ?ls = "take ?k ls @ e # drop ?k ls"
  have "insert_entries prev (Suc offset) es ?ls =
      Some (take (prev + Suc offset + 1) ?ls @ es @ drop (prev + Suc offset + 1) ?ls)"
    using Cons.prems by (intro Cons.IH) simp
  moreover have "take (prev + Suc offset + 1) ?ls = take ?k ls @ [e]"
    using Cons.prems by simp
  moreover have "drop (prev + Suc offset + 1) ?ls = drop ?k ls"
    using Cons.prems by simp
  ultimately show ?case using Cons.prems by (simp add: add.commute add.left_commute)
qed

text \<open>The result of \<open>save_persistent\<close>: an \<open>anyhow\<close> error or success, and only the file moved.\<close>

definition only_file :: "('a, 'f) State \<Rightarrow> ('a, 'f) State \<Rightarrow> bool" where
  "only_file st st' \<longleftrightarrow> st' = st\<lparr>state := (state st)\<lparr>state_file := state_file (state st')\<rparr>\<rparr>"

lemma save_frame:
  assumes "shared (save_persistent io) st = (r, st')"
  shows "only_file st st'" and "r \<noteq> Inl Panic"
  using assms
  by (auto simp: shared_def save_persistent_def on_file_def lift_anyhow_def only_file_def prog_simps
      split: prod.splits sum.splits)

lemmas upd_defs = putoff_timeout_def upd_pers_def upd_shared_def

lemma save_same:
  assumes "shared (save_persistent io) st = (r, st')"
  shows "pers st' = pers st \<and> role_of st' = role_of st \<and> commit_of st' = commit_of st \<and>
    servers st' = servers st \<and> me st' = me st \<and> timeout_cancel st' = timeout_cancel st \<and>
    (r = Inr () \<or> (\<exists>e. r = Inl (Anyhow e)))"
proof -
  from save_frame(1) [OF assms] obtain h where "st' = st\<lparr>state := (state st)\<lparr>state_file := h\<rparr>\<rparr>"
    unfolding only_file_def by blast
  moreover have "r = Inr () \<or> (\<exists>e. r = Inl (Anyhow e))"
    using save_frame(2) [OF assms] by (cases r; cases "projl r") auto
  ultimately show ?thesis by simp
qed

lemma turn_to_follower_same:
  assumes "turn_to_follower io t st = (r, st')"
  shows "pers st' = (pers st)\<lparr>current_term := t, voted_for := None\<rparr> \<and> role_of st' = Follower \<and>
    commit_of st' = commit_of st \<and> servers st' = servers st \<and> me st' = me st \<and>
    timeout_cancel st' = timeout_cancel st \<and>
    (r = Inr () \<or> (\<exists>e. r = Inl (Anyhow e)))"
  using assms by (auto simp: turn_to_follower_def upd_defs dest!: save_same)

section \<open>Receiving entries\<close>

text \<open>When \<open>append_entries\<close> accepts, and the log it then holds.\<close>

definition ae_accepts :: "AppendEntriesRequest \<Rightarrow> ('a, 'f) State \<Rightarrow> bool" where
  "ae_accepts req st \<longleftrightarrow> cur_term st \<le> ae_term req \<and>
     (cur_term st < ae_term req \<or> role_of st = Follower) \<and>
     prev_log_index req < length (the_logs st) \<and>
     log_term (the_logs st ! prev_log_index req) = prev_log_term req"

definition ae_merge :: "AppendEntriesRequest \<Rightarrow> Log list \<Rightarrow> Log list" where
  "ae_merge req ls = (let k = prev_log_index req + 1 in
     take k ls @ entries req @ take (length (entries req)) (drop k ls))"

lemma ae_log_step:
  assumes "prev_log_index req < length ls"
  shows "insert_entries (prev_log_index req) 0 (entries req)
           (if length ls > prev_log_index req + 1 + length (entries req)
            then take (prev_log_index req + 1 + length (entries req)) ls else ls) = Some (ae_merge req ls)"
  using assms by (auto simp: insert_entries_eq ae_merge_def Let_def drop_take min_def)

definition ae_commit :: "AppendEntriesRequest \<Rightarrow> Log list \<Rightarrow> usize \<Rightarrow> usize" where
  "ae_commit req ls ci = (if leader_commit req > ci
     then min (leader_commit req) (usize_sub (length (ae_merge req ls)) 1) else ci)"

lemma store_entries_run:
  assumes "store_entries io req st = (r, st')" and "prev_log_index req < length (the_logs st)"
  shows "pers st' = (pers st)\<lparr>logs := ae_merge req (the_logs st)\<rparr> \<and> role_of st' = role_of st \<and>
    commit_of st' = ae_commit req (the_logs st) (commit_of st) \<and>
    servers st' = servers st \<and> me st' = me st \<and>
    (r = Inr \<lparr>success = True\<rparr> \<or> (\<exists>e. r = Inl (Anyhow e)))"
proof -
  let ?c = "prev_log_index req + 1 + length (entries req)"
  let ?m = "ae_merge req (the_logs st)"
  define st1 where "st1 = st\<lparr>state := (state st)\<lparr>persistent := (pers st)\<lparr>logs := ?m\<rparr>\<rparr>\<rparr>"
  define st2 where "st2 = st1\<lparr>state := (state st1)\<lparr>commit_index := ae_commit req (the_logs st) (commit_of st)\<rparr>\<rparr>"
  have "store_entries io req st = bindE (shared (save_persistent io)) (\<lambda>_. ok \<lparr>success = True\<rparr>) st2"
    using ae_log_step [OF assms(2)]
    by (auto simp: store_entries_def upd_defs resize_unreachable_def st1_def st2_def ae_commit_def
        bindE_assoc split: if_splits)
  then have run: "bindE (shared (save_persistent io)) (\<lambda>_. ok \<lparr>success = True\<rparr>) st2 = (r, st')"
    using assms(1) by simp
  obtain q u where save: "shared (save_persistent io) st2 = (q, u)" by fastforce
  from run save have r: "st' = u" "r = (case q of Inl e \<Rightarrow> Inl e | Inr _ \<Rightarrow> Inr \<lparr>success = True\<rparr>)"
    by (auto simp: bindE_app split: sum.splits)
  have "r = Inr \<lparr>success = True\<rparr> \<or> (\<exists>e. r = Inl (Anyhow e))"
    using r(2) save_same [OF save] by auto
  with save_same [OF save] r(1) show ?thesis
    by (simp add: st1_def st2_def)
qed

lemma check_entries_cases:
  assumes run: "check_entries io req st = (r, st')" and cur: "cur_term st = ae_term req"
  obtains
    (denied) "\<not> ae_accepts req st" and "r = Inr \<lparr>success = False\<rparr>" and "st' = st"
  | (stored) "ae_accepts req st" and "store_entries io req st = (r, st')"
  using assms
  by (cases "ae_accepts req st") (auto simp: check_entries_def ae_accepts_def split: if_splits)

text \<open>
  Every way \<open>append_entries\<close> can go. In \<open>failed\<close> the state file could not be written on the way to
  becoming a follower of the new term.
\<close>

definition settled :: "u64 \<Rightarrow> ('a, 'f) State \<Rightarrow> ('a, 'f) State \<Rightarrow> bool" where
  "settled t st u \<longleftrightarrow> cur_term st \<le> t \<and> cur_term u = t \<and> the_logs u = the_logs st \<and>
     commit_of u = commit_of st \<and> servers u = servers st \<and> me u = me st \<and>
     (if cur_term st < t then role_of u = Follower \<and> voted_for (pers u) = None
      else role_of u = role_of st \<and> voted_for (pers u) = voted_for (pers st))"

lemma settledD:
  assumes "settled t st u"
  shows "cur_term st \<le> t" "cur_term u = t" "the_logs u = the_logs st" "commit_of u = commit_of st"
    "servers u = servers st" "me u = me st"
    "cur_term st < t \<Longrightarrow> role_of u = Follower" "cur_term st < t \<Longrightarrow> voted_for (pers u) = None"
    "cur_term st = t \<Longrightarrow> role_of u = role_of st"
    "cur_term st = t \<Longrightarrow> voted_for (pers u) = voted_for (pers st)"
  using assms by (auto simp: settled_def)

lemma settle_cases:
  assumes run: "bindE (if t > cur_term st then turn_to_follower io t else ok ()) (\<lambda>_. m) st = (r, st')"
    and le: "cur_term st \<le> t"
  obtains
    (failed) e where "cur_term st < t" and "r = Inl (Anyhow e)" and "settled t st st'"
  | (settled) u where "settled t st u" and "m u = (r, st')"
proof (cases "cur_term st < t")
  case True
  obtain q u where turn: "turn_to_follower io t st = (q, u)" by fastforce
  from turn_to_follower_same [OF turn] True have s: "settled t st u" and q: "q = Inr () \<or> (\<exists>e. q = Inl (Anyhow e))"
    by (auto simp: settled_def)
  show ?thesis
  proof (cases q)
    case (Inl e)
    with q obtain e' where "e = Anyhow e'" by auto
    with run turn True Inl s failed show ?thesis by (auto simp: bindE_app)
  next
    case (Inr x)
    with run turn True s settled show ?thesis by (auto simp: bindE_app)
  qed
next
  case False
  with run le show ?thesis
    by (intro settled [of st]) (auto simp: settled_def)
qed

lemma append_entries_cases:
  assumes run: "append_entries io req st = (r, st')"
  obtains
    (stale) "ae_term req < cur_term st" and "r = Inr \<lparr>success = False\<rparr>" and "st' = st"
  | (failed) e where "cur_term st < ae_term req" and "r = Inl (Anyhow e)" and "settled (ae_term req) st st'"
  | (denied) "\<not> ae_accepts req st" and "r = Inr \<lparr>success = False\<rparr>" and "settled (ae_term req) st st'"
  | (stored) u where "ae_accepts req st" and "settled (ae_term req) st u" and "role_of u = Follower"
      and "r = Inr \<lparr>success = True\<rparr> \<or> (\<exists>e. r = Inl (Anyhow e))"
      and "pers st' = (pers u)\<lparr>logs := ae_merge req (the_logs st)\<rparr>"
      and "role_of st' = Follower"
      and "commit_of st' = ae_commit req (the_logs st) (commit_of st)"
      and "servers st' = servers st" and "me st' = me st"
proof (cases "ae_term req < cur_term st")
  case True
  with run show ?thesis by (auto simp: append_entries_def intro: stale)
next
  case False
  define st1 where "st1 = st\<lparr>timeout_cancel := Suc (timeout_cancel st)\<rparr>"
  have same: "settled t st u \<longleftrightarrow> settled t st1 u" "ae_accepts req st \<longleftrightarrow> ae_accepts req st1" for t u
    by (simp_all add: settled_def ae_accepts_def st1_def)
  from False run have "bindE (if ae_term req > cur_term st1 then turn_to_follower io (ae_term req) else ok ())
      (\<lambda>_. check_entries io req) st1 = (r, st')" and "cur_term st1 \<le> ae_term req"
    by (auto simp: append_entries_def upd_defs st1_def)
  then show ?thesis
  proof (cases rule: settle_cases)
    case (failed e)
    with that(2) show ?thesis by (simp add: same st1_def)
  next
    case (settled u)
    note su = settledD [OF settled(1)]
    from settled(2) su(2) show ?thesis
    proof (cases rule: check_entries_cases)
      case denied
      moreover have "\<not> ae_accepts req st1"
        using denied(1) su by (cases "cur_term st1 < ae_term req") (auto simp: ae_accepts_def)
      ultimately show ?thesis using that(3) settled(1) by (simp add: same)
    next
      case stored
      then have f: "role_of u = Follower" "prev_log_index req < length (the_logs u)"
        using su(2) by (auto simp: ae_accepts_def)
      have "ae_accepts req st1"
        using stored(1) su by (cases "cur_term st1 < ae_term req") (auto simp: ae_accepts_def)
      with that(4) [of u] settled(1) f store_entries_run [OF stored(2) f(2)] su show ?thesis
        by (simp add: same st1_def)
    qed
  qed
qed

section \<open>Voting\<close>

definition rv_grants :: "'a RequestVoteRequest \<Rightarrow> ('a, 'f) State \<Rightarrow> bool" where
  "rv_grants req st \<longleftrightarrow> cur_term st \<le> rv_term req \<and> log_condition req (the_logs st) \<and>
     (cur_term st < rv_term req \<or> voted_for (pers st) \<in> {None, Some (candidate_id req)})"

lemma decide_vote_run:
  assumes "decide_vote io req st = (r, st')" and "cur_term st = rv_term req"
  shows "cur_term st' = cur_term st \<and> the_logs st' = the_logs st \<and> commit_of st' = commit_of st \<and>
    servers st' = servers st \<and> me st' = me st \<and> role_of st' = role_of st \<and>
    voted_for (pers st') =
      (if rv_grants req st then Some (candidate_id req)
       else if \<not> log_condition req (the_logs st) \<and> voted_for (pers st) = Some (candidate_id req) then None
       else voted_for (pers st)) \<and>
    (r = Inr \<lparr>resp_term = rv_term req, vote_granted = rv_grants req st\<rparr> \<or> (\<exists>e. r = Inl (Anyhow e)))"
proof -
  consider (nolog) "\<not> log_condition req (the_logs st)"
    | (granted) "log_condition req (the_logs st)" "voted_for (pers st) \<in> {None, Some (candidate_id req)}"
    | (other) c where "log_condition req (the_logs st)" "voted_for (pers st) = Some c" "c \<noteq> candidate_id req"
    by (cases "voted_for (pers st)") auto
  then show ?thesis
  proof cases
    case nolog
    with assms show ?thesis
      by (auto simp: decide_vote_def rv_grants_def upd_defs bindE_app
          split: if_splits prod.splits sum.splits dest!: save_same)
  next
    case granted
    with assms show ?thesis
      by (auto simp: decide_vote_def rv_grants_def upd_defs bindE_app
          split: prod.splits sum.splits dest!: save_same)
  next
    case (other c)
    with assms show ?thesis
      by (auto simp: decide_vote_def rv_grants_def)
  qed
qed

lemma request_vote_cases:
  assumes run: "request_vote io req st = (r, st')"
  obtains
    (stale) "rv_term req < cur_term st" and "r = Inr \<lparr>resp_term = rv_term req, vote_granted = False\<rparr>"
      and "st' = st"
  | (failed) e where "cur_term st < rv_term req" and "r = Inl (Anyhow e)" and "settled (rv_term req) st st'"
  | (decided) u where "settled (rv_term req) st u"
      and "r = Inr \<lparr>resp_term = rv_term req, vote_granted = rv_grants req st\<rparr> \<or> (\<exists>e. r = Inl (Anyhow e))"
      and "voted_for (pers st') =
        (if rv_grants req st then Some (candidate_id req)
         else if \<not> log_condition req (the_logs st) \<and> voted_for (pers u) = Some (candidate_id req) then None
         else voted_for (pers u))"
      and "cur_term st' = rv_term req" and "the_logs st' = the_logs st" and "commit_of st' = commit_of st"
      and "role_of st' = role_of u" and "servers st' = servers st" and "me st' = me st"
proof (cases "rv_term req < cur_term st")
  case True
  with run show ?thesis by (auto simp: request_vote_def intro: stale)
next
  case False
  with run have "bindE (if rv_term req > cur_term st then turn_to_follower io (rv_term req) else ok ())
      (\<lambda>_. decide_vote io req) st = (r, st')" and "cur_term st \<le> rv_term req"
    by (auto simp: request_vote_def)
  then show ?thesis
  proof (cases rule: settle_cases)
    case (failed e)
    with that(2) show ?thesis by simp
  next
    case (settled u)
    note su = settledD [OF settled(1)]
    have "rv_grants req u \<longleftrightarrow> rv_grants req st"
      using su by (cases "cur_term st < rv_term req") (auto simp: rv_grants_def)
    with that(3) [OF settled(1)] decide_vote_run [OF settled(2) su(2)] su show ?thesis
      by simp
  qed
qed

text \<open>The two case analyses, boiled down to what an answered request shows.\<close>

lemma append_entries_answer:
  assumes "append_entries io req st = (Inr resp, st')"
  shows "success resp \<longleftrightarrow> ae_accepts req st"
    and "\<not> success resp \<Longrightarrow> the_logs st' = the_logs st \<and> commit_of st' = commit_of st"
    and "ae_term req < cur_term st \<Longrightarrow> st' = st"
    and "success resp \<Longrightarrow> the_logs st' = ae_merge req (the_logs st) \<and>
      commit_of st' = ae_commit req (the_logs st) (commit_of st)"
    and "success resp \<Longrightarrow> role_of st' = Follower \<and> cur_term st' = ae_term req"
    and "servers st' = servers st \<and> me st' = me st"
  using assms
  by (cases rule: append_entries_cases; auto simp: settled_def ae_accepts_def)+

lemma request_vote_answer:
  assumes "request_vote io req st = (Inr resp, st')"
  shows "vote_granted resp \<longleftrightarrow> rv_grants req st"
    and "vote_granted resp \<Longrightarrow> voted_for (pers st') = Some (candidate_id req) \<and> cur_term st' = rv_term req"
    and "the_logs st' = the_logs st \<and> commit_of st' = commit_of st"
    and "servers st' = servers st \<and> me st' = me st"
  using assms
  by (cases rule: request_vote_cases; auto simp: settled_def rv_grants_def)+

lemma request_vote_denied:
  assumes "request_vote io req st = (Inr resp, st')" and "\<not> vote_granted resp" and "cur_term st \<le> rv_term req"
  shows "voted_for (pers st') =
    (if cur_term st < rv_term req \<or> voted_for (pers st) = Some (candidate_id req) then None
     else voted_for (pers st))"
  using assms(1)
proof (cases rule: request_vote_cases)
  case (decided u)
  then have "\<not> rv_grants req st" using assms(2) by auto
  with decided(1,3) assms(3) show ?thesis
    by (cases "cur_term st < rv_term req") (auto simp: settled_def rv_grants_def)
qed (use assms(3) in auto)

lemma ae_merge_split:
  assumes "prev_log_index req < length ls"
  shows "take (prev_log_index req + 1 + length (entries req)) (ae_merge req ls) =
           take (prev_log_index req + 1) ls @ entries req"
    and "drop (prev_log_index req + 1 + length (entries req)) (ae_merge req ls) =
           take (length (entries req)) (drop (prev_log_index req + 1) ls)"
  using assms by (auto simp: ae_merge_def Let_def min_def)

section \<open>An instance of the file system, and sample nodes\<close>

text \<open>
  A state file kept in memory (contents and position) and a given JSON printer and parser: the
  instance on which the hypotheses of the properties below are shown to hold.
\<close>

definition ram_io :: "('a Persistent \<Rightarrow> string) \<Rightarrow> (string \<Rightarrow> string + 'a Persistent) \<Rightarrow>
    (string \<rightharpoonup> string) \<Rightarrow> ('a, string \<times> nat) raft_io" where
  "ram_io pr de disk = \<lparr>
     to_string_pretty = (\<lambda>p. Inr (pr p)),
     to_vec = (\<lambda>p. Inr (pr p)),
     from_str = de,
     path_exists = (\<lambda>p. disk p \<noteq> None),
     open_file = (\<lambda>p. case disk p of None \<Rightarrow> Inl ''not found'' | Some c \<Rightarrow> Inr (c, 0)),
     create_file = (\<lambda>p. Inr ([], 0)),
     read_to_string = (\<lambda>(c, i). (Inr (drop i c), (c, length c))),
     seek_start = (\<lambda>n (c, i). (Inr n, (c, n))),
     set_len = (\<lambda>n (c, i). (Inr (), (take n c @ replicate (n - length c) (CHR 0x00), i))),
     write_all = (\<lambda>s (c, i). (Inr (), (take i c @ s @ drop (i + length s) c, i + length s)))\<rparr>"

definition blank_io :: "(nat, string \<times> nat) raft_io" where
  "blank_io = ram_io (\<lambda>_. ''json'') (\<lambda>_. Inl ''parse error'') Map.empty"

text \<open>A node with address \<open>a\<close> among the servers 0, 1, 2, in a given role and with a given log.\<close>

definition sample_node :: "nat Role \<Rightarrow> u64 \<Rightarrow> nat option \<Rightarrow> Log list \<Rightarrow> usize \<Rightarrow> nat \<Rightarrow> (nat, string \<times> nat) State" where
  "sample_node r t v ls ci a =
     \<lparr>state = \<lparr>role = r, state_file = ([], 0),
               persistent = \<lparr>current_term = t, voted_for = v, logs = ls\<rparr>, commit_index = ci\<rparr>,
      timeout_cancel = 0, servers = [0, 1, 2], me = a\<rparr>"

text \<open>Evaluates the operations on such nodes.\<close>

lemmas raft_eval = append_entries_def check_entries_def store_entries_def request_vote_def
  decide_vote_def turn_to_follower_def upd_defs shared_def save_persistent_def on_file_def
  lift_anyhow_def log_condition_def resize_unreachable_def send_append_begin_def
  send_append_build_def send_append_reply_def send_append_finish_def count_true_def
  election_begin_def election_request_def election_finish_def blank_io_def ram_io_def sample_node_def

abbreviation entry :: "string \<Rightarrow> u64 \<Rightarrow> Log" where
  "entry x t \<equiv> \<lparr>log_text = x, log_term = t\<rparr>"

section \<open>Properties of the handlers\<close>

text \<open>
  Property C3. When \<open>append_entries\<close> answers success, the follower's log up to the last sent entry
  is the agreed prefix followed by exactly the leader's entries; what may follow are entries that
  stood behind the prefix before (at most as many as were sent), because the source inserts
  instead of overwriting. The node is then a follower in the request's term.
\<close>

theorem append_entries_stores:
  assumes "append_entries io req st = (Inr \<lparr>success = True\<rparr>, st')"
  shows "take (prev_log_index req + 1 + length (entries req)) (the_logs st') =
           take (prev_log_index req + 1) (the_logs st) @ entries req \<and>
         drop (prev_log_index req + 1 + length (entries req)) (the_logs st') =
           take (length (entries req)) (drop (prev_log_index req + 1) (the_logs st)) \<and>
         log_term (the_logs st ! prev_log_index req) = prev_log_term req \<and>
         role_of st' = Follower \<and> cur_term st' = ae_term req"
proof -
  note ans = append_entries_answer [OF assms]
  from ans(1) have acc: "prev_log_index req < length (the_logs st)"
      "log_term (the_logs st ! prev_log_index req) = prev_log_term req"
    by (auto simp: ae_accepts_def)
  with ans(4,5) ae_merge_split [OF acc(1)] show ?thesis by simp
qed

theorem append_entries_stores_witness:
  "let req = \<lparr>ae_term = 2, prev_log_index = 0, prev_log_term = 0, entries = [entry ''c'' 2], leader_commit = 0\<rparr>;
       st = sample_node Follower 1 None [entry ''init'' 0, entry ''b'' 1] 0 1
   in the_logs (snd (append_entries blank_io req st)) = [entry ''init'' 0, entry ''c'' 2, entry ''b'' 1] \<and>
      take 2 (the_logs (snd (append_entries blank_io req st))) = [entry ''init'' 0] @ [entry ''c'' 2]"
proof -
  let ?req = "\<lparr>ae_term = 2, prev_log_index = 0, prev_log_term = 0, entries = [entry ''c'' 2], leader_commit = 0\<rparr>"
  let ?st = "sample_node Follower 1 None [entry ''init'' 0, entry ''b'' 1] 0 1"
  have run: "append_entries blank_io ?req ?st = (Inr \<lparr>success = True\<rparr>, snd (append_entries blank_io ?req ?st))"
    by (rule run_eqI) (simp add: raft_eval prog_simps)
  from append_entries_stores [OF run] have "take 2 (the_logs (snd (append_entries blank_io ?req ?st))) =
      [entry ''init'' 0] @ [entry ''c'' 2]"
    by (simp add: sample_node_def numeral_2_eq_2)
  moreover have "the_logs (snd (append_entries blank_io ?req ?st)) =
      [entry ''init'' 0, entry ''c'' 2, entry ''b'' 1]"
    by (simp add: raft_eval prog_simps)
  ultimately show ?thesis by (simp only: Let_def)
qed

text \<open>
  Property C16. \<open>append_entries\<close> never panics: neither the truncation's \<open>unreachable!()\<close> nor an
  insertion beyond the end nor the indexing of the previous entry can fire.
\<close>

theorem append_entries_no_panic: "fst (append_entries io req st) \<noteq> Inl Panic"
proof -
  obtain r st' where run: "append_entries io req st = (r, st')" by fastforce
  then have "r \<noteq> Inl Panic" by (cases rule: append_entries_cases) auto
  with run show ?thesis by simp
qed

text \<open>
  Property C17. The answer of \<open>append_entries\<close> is success exactly when the request is not from an
  older term, the node is a follower (or becomes one because the term is newer) and its log has the
  request's term at the previous index; a denied request leaves the log and the commit index as
  they were, and one from an older term changes nothing at all.
\<close>

theorem append_entries_decides:
  assumes "append_entries io req st = (Inr resp, st')"
  shows "(success resp \<longleftrightarrow>
            cur_term st \<le> ae_term req \<and> (cur_term st < ae_term req \<or> role_of st = Follower) \<and>
            prev_log_index req < length (the_logs st) \<and>
            log_term (the_logs st ! prev_log_index req) = prev_log_term req) \<and>
         (\<not> success resp \<longrightarrow> the_logs st' = the_logs st \<and> commit_of st' = commit_of st) \<and>
         (ae_term req < cur_term st \<longrightarrow> st' = st)"
  using append_entries_answer [OF assms] by (simp add: ae_accepts_def)

theorem append_entries_decides_witness:
  "let req = \<lparr>ae_term = 2, prev_log_index = 1, prev_log_term = 1, entries = [], leader_commit = 0\<rparr>;
       st = sample_node (Leader Map.empty Map.empty) 2 None [entry ''init'' 0, entry ''b'' 1] 0 1
   in append_entries blank_io req st = (Inr \<lparr>success = False\<rparr>, st\<lparr>timeout_cancel := 1\<rparr>) \<and>
      the_logs (snd (append_entries blank_io req st)) = the_logs st"
proof -
  let ?req = "\<lparr>ae_term = 2, prev_log_index = 1, prev_log_term = 1, entries = [], leader_commit = 0\<rparr>"
  let ?st = "sample_node (Leader Map.empty Map.empty) 2 None [entry ''init'' 0, entry ''b'' 1] 0 1"
  have run: "append_entries blank_io ?req ?st = (Inr \<lparr>success = False\<rparr>, ?st\<lparr>timeout_cancel := 1\<rparr>)"
    by (simp add: append_entries_def check_entries_def upd_defs sample_node_def)
  from append_entries_decides [OF run] run show ?thesis by (simp add: Let_def)
qed

text \<open>
  Property C18. \<open>request_vote\<close> grants exactly when the term is not older, the candidate's last entry has a
  newer term than the node's last entry or the candidate's log is at least as long (whatever the terms
  of its entries: either test alone is enough), and no other candidate has the node's vote in that
  term. A granted vote is recorded together with the term; a denial for the log withdraws a vote the
  same candidate already had; voting never touches the log or the commit index.
\<close>

theorem request_vote_decides:
  assumes "request_vote io req st = (Inr resp, st')"
  shows "(vote_granted resp \<longleftrightarrow>
            cur_term st \<le> rv_term req \<and>
            ((if the_logs st = [] then 0 else log_term (last (the_logs st))) < last_log_term req \<or>
             length (the_logs st) \<le> (last_log_index req + 1) mod 2 ^ 64) \<and>
            (cur_term st < rv_term req \<or> voted_for (pers st) \<in> {None, Some (candidate_id req)})) \<and>
         (vote_granted resp \<longrightarrow>
            voted_for (pers st') = Some (candidate_id req) \<and> cur_term st' = rv_term req) \<and>
         (\<not> vote_granted resp \<and> cur_term st \<le> rv_term req \<longrightarrow>
            voted_for (pers st') =
              (if cur_term st < rv_term req \<or> voted_for (pers st) = Some (candidate_id req) then None
               else voted_for (pers st))) \<and>
         the_logs st' = the_logs st \<and> commit_of st' = commit_of st"
  using request_vote_answer [OF assms] request_vote_denied [OF assms]
  by (simp add: rv_grants_def log_condition_def slice_last_def usize_add_def)

theorem request_vote_decides_witness:
  "let req = \<lparr>rv_term = 3, candidate_id = 2, last_log_index = 1, last_log_term = 1\<rparr>;
       st = sample_node Follower 1 (Some 0) [entry ''init'' 0, entry ''b'' 1] 0 1
   in fst (request_vote blank_io req st) = Inr \<lparr>resp_term = 3, vote_granted = True\<rparr> \<and>
      voted_for (pers (snd (request_vote blank_io req st))) = Some 2"
proof -
  let ?req = "\<lparr>rv_term = 3, candidate_id = 2, last_log_index = 1, last_log_term = 1\<rparr>"
  let ?st = "sample_node Follower 1 (Some 0) [entry ''init'' 0, entry ''b'' 1] 0 1"
  have f: "fst (request_vote blank_io ?req ?st) = Inr \<lparr>resp_term = 3, vote_granted = True\<rparr>"
    by (simp add: raft_eval prog_simps)
  from request_vote_decides [OF run_eqI [OF f]] f show ?thesis by (simp add: Let_def)
qed

end
