(* ===== verification/Raft_Replication.thy ===== *)
theory Raft_Replication
  imports Raft_Node
begin

text \<open>
  Log replication between a leader and one follower: the per-server task of
  \<open>send_append_entries\<close> repeated by the heartbeat, against a follower that answers it. What the
  leader relies on is the locale \<open>log_follower\<close>; the convergence of the follower's log is proved
  there once and obtained for \<open>append_entries\<close> by interpretation.
\<close>

section \<open>One round\<close>

text \<open>
  The task builds its request, the follower answers (\<^term>\<open>None\<close>: the call failed, and the task ends
  with the error), and the leader takes the answer in.
\<close>

definition replicate_round ::
    "(AppendEntriesRequest \<Rightarrow> 's \<Rightarrow> bool option \<times> 's) \<Rightarrow> 'a \<Rightarrow> ('a, 'f) State \<times> 's \<Rightarrow> ('a, 'f) State \<times> 's" where
  "replicate_round recv a = (\<lambda>(L, F).
     case send_append_build a L of
       (Inr (Inr req), L1) \<Rightarrow>
         (case recv req F of
            (Some b, F1) \<Rightarrow> (snd (send_append_reply a b L1), F1)
          | (None, F1) \<Rightarrow> (L1, F1))
     | (_, L1) \<Rightarrow> (L1, F))"

text \<open>The follower behind the HTTP endpoint: an error status has no \<open>success\<close> field to read.\<close>

definition deliver :: "('a, 'f) raft_io \<Rightarrow> AppendEntriesRequest \<Rightarrow> ('a, 'f) State \<Rightarrow> bool option \<times> ('a, 'f) State" where
  "deliver io req F = (case append_entries io req F of
      (Inr resp, F1) \<Rightarrow> (Some (success resp), F1)
    | (Inl _, F1) \<Rightarrow> (None, F1))"

section \<open>The leader's side\<close>

definition next_of :: "('a, 'f) State \<Rightarrow> 'a \<Rightarrow> usize option" where
  "next_of L a = (case role_of L of Leader nxt _ \<Rightarrow> nxt a | _ \<Rightarrow> None)"

definition request_at :: "('a, 'f) State \<Rightarrow> usize \<Rightarrow> AppendEntriesRequest" where
  "request_at L prev = \<lparr>ae_term = cur_term L, prev_log_index = prev,
     prev_log_term = unwrap_or (map_option log_term (slice_get (the_logs L) prev)) 0,
     entries = drop (prev + 1) (the_logs L), leader_commit = commit_of L\<rparr>"

lemma build_leader:
  assumes "next_of L a = Some n" and "a \<noteq> me L"
  shows "send_append_build a L = (Inr (Inr (request_at L (n - 1))), L)"
  using assms
  by (auto simp: next_of_def send_append_build_def request_at_def Let_def split: Role.splits)

lemma reply_leader:
  assumes "next_of L a = Some n"
  shows "next_of (snd (send_append_reply a b L)) a = Some (if b then length (the_logs L) else n - 1)"
    and "the_logs (snd (send_append_reply a b L)) = the_logs L"
    and "cur_term (snd (send_append_reply a b L)) = cur_term L"
    and "me (snd (send_append_reply a b L)) = me L"
  using assms
  by (auto simp: next_of_def send_append_reply_def upd_defs split: Role.splits)

section \<open>Convergence\<close>

text \<open>
  Two logs agree when they start with the same term and an equal term at an index means equal logs
  up to it (Raft's log matching, here of one leader and one follower).
\<close>

definition log_agree :: "Log list \<Rightarrow> Log list \<Rightarrow> bool" where
  "log_agree xs ys \<longleftrightarrow> xs \<noteq> [] \<and> ys \<noteq> [] \<and> log_term (xs ! 0) = log_term (ys ! 0) \<and>
     (\<forall>i < length xs. i < length ys \<longrightarrow> log_term (xs ! i) = log_term (ys ! i) \<longrightarrow>
        take (Suc i) xs = take (Suc i) ys)"

lemma merge_agree:
  assumes "log_agree (the_logs L) ys" and "prev < length (the_logs L)" and "prev < length ys"
    and "log_term (ys ! prev) = log_term (the_logs L ! prev)"
  shows "take (length (the_logs L)) (ae_merge (request_at L prev) ys) = the_logs L"
proof -
  have "take (Suc prev) ys = take (Suc prev) (the_logs L)"
    using assms unfolding log_agree_def by metis
  then have "ae_merge (request_at L prev) ys =
      the_logs L @ take (length (drop (Suc prev) (the_logs L))) (drop (Suc prev) ys)"
    by (simp add: ae_merge_def request_at_def Let_def del: length_drop append_assoc
        flip: append_assoc)
  then show ?thesis by simp
qed

locale log_follower =
  fixes recv :: "AppendEntriesRequest \<Rightarrow> 's \<Rightarrow> bool option \<times> 's"
    and flogs :: "'s \<Rightarrow> Log list"
    and ready :: "u64 \<Rightarrow> 's \<Rightarrow> bool"
  assumes recv_ready: "ready (ae_term req) F \<Longrightarrow> ready (ae_term req) (snd (recv req F))"
    and recv_answer: "ready (ae_term req) F \<Longrightarrow> fst (recv req F) =
      Some (prev_log_index req < length (flogs F) \<and>
            log_term (flogs F ! prev_log_index req) = prev_log_term req)"
    and recv_denied: "ready (ae_term req) F \<Longrightarrow> fst (recv req F) = Some False \<Longrightarrow>
      flogs (snd (recv req F)) = flogs F"
    and recv_stored: "ready (ae_term req) F \<Longrightarrow> fst (recv req F) = Some True \<Longrightarrow>
      flogs (snd (recv req F)) = ae_merge req (flogs F)"
begin

text \<open>The situation of a round: a leader that knows the follower, and a follower of its term.\<close>

definition linked :: "'a \<Rightarrow> Log list \<Rightarrow> u64 \<Rightarrow> usize \<Rightarrow> ('a, 'f) State \<times> 's \<Rightarrow> bool" where
  "linked a ls t n s \<longleftrightarrow> (case s of (L, F) \<Rightarrow>
     next_of L a = Some n \<and> a \<noteq> me L \<and> the_logs L = ls \<and> cur_term L = t \<and> ready t F \<and> n \<le> length ls)"

lemma round_step:
  assumes "linked a ls t n (L, F)" and "ls \<noteq> []"
  defines "acc \<equiv> n - 1 < length (flogs F) \<and> log_term (flogs F ! (n - 1)) = log_term (ls ! (n - 1))"
  shows "linked a ls t (if acc then length ls else n - 1) (replicate_round recv a (L, F))"
    and "flogs (snd (replicate_round recv a (L, F))) =
      (if acc then ae_merge (request_at L (n - 1)) (flogs F) else flogs F)"
proof -
  let ?req = "request_at L (n - 1)"
  from assms(1) have n: "next_of L a = Some n" "a \<noteq> me L" "the_logs L = ls" "cur_term L = t"
    "ready t F" "n \<le> length ls"
    by (auto simp: linked_def)
  then have "n - 1 < length ls" using assms(2) by (cases ls) auto
  then have fields: "ae_term ?req = t" "prev_log_index ?req = n - 1"
    "prev_log_term ?req = log_term (ls ! (n - 1))"
    using n by (simp_all add: request_at_def)
  have ans: "fst (recv ?req F) = Some acc"
    using recv_answer [of ?req F] n fields by (simp add: acc_def)
  then obtain F1 where r: "recv ?req F = (Some acc, F1)" by (cases "recv ?req F") auto
  have eq: "replicate_round recv a (L, F) = (snd (send_append_reply a acc L), F1)"
    using build_leader [OF n(1,2)] r by (simp add: replicate_round_def)
  have "ready t F1" using recv_ready [of ?req F] n(5) fields r by simp
  with reply_leader [OF n(1), of acc] n eq
  show "linked a ls t (if acc then length ls else n - 1) (replicate_round recv a (L, F))"
    by (auto simp: linked_def)
  show "flogs (snd (replicate_round recv a (L, F))) =
      (if acc then ae_merge ?req (flogs F) else flogs F)"
    using recv_denied [of ?req F] recv_stored [of ?req F] n(5) fields r eq by (cases acc) auto
qed

lemma round_covers:
  assumes "linked a ls t (length ls) s" and "take (length ls) (flogs (snd s)) = ls" and "ls \<noteq> []"
  shows "linked a ls t (length ls) (replicate_round recv a s)"
    and "flogs (snd (replicate_round recv a s)) = ls"
proof -
  obtain L F where s: "s = (L, F)" by fastforce
  let ?i = "length ls - 1"
  from assms(2) s have len: "length ls \<le> length (flogs F)"
    by (metis length_take min.cobounded1 snd_conv)
  from assms(2,3) s have "flogs F ! ?i = ls ! ?i"
    by (metis Suc_diff_1 length_greater_0_conv lessI nth_take snd_conv)
  with len assms(3) have acc: "?i < length (flogs F) \<and> log_term (flogs F ! ?i) = log_term (ls ! ?i)"
    by (cases ls) auto
  have L: "the_logs L = ls" using assms(1) s by (simp add: linked_def)
  with assms(2,3) s have "ae_merge (request_at L ?i) (flogs F) = ls"
    by (cases ls) (simp_all add: ae_merge_def request_at_def)
  with round_step [of a ls t "length ls" L F] assms(1,3) s acc
  show "linked a ls t (length ls) (replicate_round recv a s)"
    and "flogs (snd (replicate_round recv a s)) = ls" by simp_all
qed

lemma rounds_cover:
  assumes "linked a ls t n s" and "log_agree ls (flogs (snd s))" and "n < k"
  shows "linked a ls t (length ls) ((replicate_round recv a ^^ k) s) \<and>
    take (length ls) (flogs (snd ((replicate_round recv a ^^ k) s))) = ls"
  using assms
proof (induction k arbitrary: n s)
  case 0
  then show ?case by simp
next
  case (Suc k)
  obtain L F where s: "s = (L, F)" by fastforce
  from Suc.prems(2) have ne: "ls \<noteq> []" by (simp add: log_agree_def)
  let ?s = "replicate_round recv a s"
  let ?ok = "n - 1 < length (flogs F) \<and> log_term (flogs F ! (n - 1)) = log_term (ls ! (n - 1))"
  have L: "the_logs L = ls" and n: "n \<le> length ls" using Suc.prems(1) s by (simp_all add: linked_def)
  note step = round_step [OF Suc.prems(1) [unfolded s] ne, folded s]
  have stay: "linked a ls t (length ls) ((replicate_round recv a ^^ j) u) \<and>
      take (length ls) (flogs (snd ((replicate_round recv a ^^ j) u))) = ls"
    if "linked a ls t (length ls) u" "take (length ls) (flogs (snd u)) = ls" for u j
  proof (induction j)
    case 0
    show ?case using that by simp
  next
    case (Suc j)
    then show ?case
      using round_covers [of a ls t "(replicate_round recv a ^^ j) u"] ne by simp
  qed
  show ?case
  proof (cases ?ok)
    case True
    have "n - 1 < length ls" using n ne by (cases ls) auto
    with True step(2) merge_agree [of L "flogs F" "n - 1"] L Suc.prems(2) s
    have "take (length ls) (flogs (snd ?s)) = ls" by simp
    with stay [of ?s k] step(1) True show ?thesis by (simp add: funpow_swap1)
  next
    case False
    have "n - 1 \<noteq> 0"
    proof
      assume "n - 1 = 0"
      with Suc.prems(2) s have ?ok by (auto simp: log_agree_def)
      with False show False by simp
    qed
    then have "n - 1 < k" using Suc.prems(3) by simp
    moreover have "linked a ls t (n - 1) ?s" "flogs (snd ?s) = flogs F"
      using step by (simp_all only: False if_False)
    ultimately show ?thesis using Suc.IH [of "n - 1" ?s] Suc.prems(2) s
      by (simp add: funpow_swap1)
  qed
qed

lemma rounds_converge:
  assumes "linked a ls t n s" and "log_agree ls (flogs (snd s))" and "n + 2 \<le> k"
  shows "flogs (snd ((replicate_round recv a ^^ k) s)) = ls"
proof -
  from assms(3) obtain j where j: "k = Suc j" "n < j" by (cases k) auto
  from assms(2) have "ls \<noteq> []" by (simp add: log_agree_def)
  with rounds_cover [OF assms(1,2) j(2)] j(1) show ?thesis
    using round_covers(2) [of a ls t "(replicate_round recv a ^^ j) s"] by simp
qed

end

section \<open>The contract holds of the node\<close>

text \<open>
  The state file can be written: the JSON printer, the seek, the truncation and the write succeed.
\<close>

definition io_total :: "('a, 'f) raft_io \<Rightarrow> bool" where
  "io_total io \<longleftrightarrow> (\<forall>p. \<exists>s. to_string_pretty io p = Inr s) \<and>
     (\<forall>n h. \<exists>m. fst (seek_start io n h) = Inr m) \<and> (\<forall>n h. fst (set_len io n h) = Inr ()) \<and>
     (\<forall>s h. fst (write_all io s h) = Inr ())"

lemma io_total_save: "io_total io \<Longrightarrow> fst (shared (save_persistent io) st) = Inr ()"
  by (auto simp: io_total_def shared_def save_persistent_def on_file_def lift_anyhow_def prog_simps
      split: prod.splits sum.splits) (metis fst_conv Inr_not_Inl old.unit.exhaust)+

definition follows :: "('a, 'f) raft_io \<Rightarrow> u64 \<Rightarrow> ('a, 'f) State \<Rightarrow> bool" where
  "follows io t F \<longleftrightarrow> io_total io \<and> (cur_term F < t \<or> cur_term F = t \<and> role_of F = Follower)"

lemma save_bind [simp]:
  "io_total io \<Longrightarrow> bindE (shared (save_persistent io)) f st = f () (snd (shared (save_persistent io) st))"
  by (rule bindE_total) (rule io_total_save)

lemma turn_total: "io_total io \<Longrightarrow> fst (turn_to_follower io t st) = Inr ()"
  by (simp add: turn_to_follower_def upd_defs io_total_save)

lemma turn_bind [simp]:
  "io_total io \<Longrightarrow> bindE (turn_to_follower io t) f st = f () (snd (turn_to_follower io t st))"
  by (rule bindE_total) (rule turn_total)

lemma store_total:
  assumes "io_total io" and "prev_log_index req < length (the_logs st)"
  shows "\<exists>resp. fst (store_entries io req st) = Inr resp"
  using assms ae_log_step [OF assms(2)]
  by (auto simp: store_entries_def upd_defs resize_unreachable_def bindE_assoc)

lemma append_entries_total:
  assumes "io_total io"
  obtains resp st' where "append_entries io req st = (Inr resp, st')"
proof -
  have check: "\<exists>resp. fst (check_entries io req u) = Inr resp" for u
    using store_total [OF assms, of req u] by (auto simp: check_entries_def)
  have "\<exists>resp. fst (append_entries io req st) = Inr resp"
    using assms check by (simp add: append_entries_def upd_defs)
  then show thesis using that by (metis prod.collapse)
qed

interpretation node_follower: log_follower "deliver io" the_logs "follows io"
  for io :: "('a, 'f) raft_io"
proof unfold_locales
  fix req :: AppendEntriesRequest and F :: "('a, 'f) State"
  assume f: "follows io (ae_term req) F"
  then have io: "io_total io" by (simp add: follows_def)
  obtain resp F1 where run: "append_entries io req F = (Inr resp, F1)"
    using append_entries_total [OF io] by blast
  then have d: "deliver io req F = (Some (success resp), F1)" by (simp add: deliver_def)
  note ans = append_entries_answer [OF run]
  have acc: "ae_accepts req F \<longleftrightarrow> prev_log_index req < length (the_logs F) \<and>
      log_term (the_logs F ! prev_log_index req) = prev_log_term req"
    using f by (auto simp: ae_accepts_def follows_def)
  from run have "cur_term F1 = ae_term req \<and> role_of F1 = Follower"
    using f by (cases rule: append_entries_cases) (auto simp: settled_def follows_def)
  with d f show "follows io (ae_term req) (snd (deliver io req F))"
    by (simp add: follows_def)
  show "fst (deliver io req F) = Some (prev_log_index req < length (the_logs F) \<and>
      log_term (the_logs F ! prev_log_index req) = prev_log_term req)"
    using d ans(1) acc by simp
  show "fst (deliver io req F) = Some False \<Longrightarrow> the_logs (snd (deliver io req F)) = the_logs F"
    using d ans(2) by simp
  show "fst (deliver io req F) = Some True \<Longrightarrow> the_logs (snd (deliver io req F)) = ae_merge req (the_logs F)"
    using d ans(4) by simp
qed

section \<open>Properties of replication\<close>

text \<open>
  Property C2. Replication converges: a leader whose log agrees with the follower's, repeating the
  per-server task of its heartbeat, makes the follower's log equal to its own after at most
  \<open>next_index + 2\<close> rounds, and it stays so in every later round. (The back-off finds the agreeing
  prefix, the next round sends the rest, and one more cuts off what the insertion left behind.)
\<close>

theorem replication_converges:
  assumes "role_of L = Leader nxt mtc" and "a \<noteq> me L" and "nxt a = Some n" and "n \<le> length (the_logs L)"
    and "io_total io" and "cur_term F < cur_term L \<or> cur_term F = cur_term L \<and> role_of F = Follower"
    and "log_agree (the_logs L) (the_logs F)" and "n + 2 \<le> k"
  shows "the_logs (snd ((replicate_round (deliver io) a ^^ k) (L, F))) = the_logs L"
proof (rule node_follower.rounds_converge)
  show "node_follower.linked io a (the_logs L) (cur_term L) n (L, F)"
    using assms by (simp add: node_follower.linked_def next_of_def follows_def)
qed (use assms in simp_all)

lemma blank_io_total: "io_total blank_io"
  by (simp add: io_total_def blank_io_def ram_io_def split: prod.splits)

theorem replication_converges_witness:
  "let L = sample_node (Leader [1 \<mapsto> 2] Map.empty) 3 None [entry ''init'' 0, entry ''a'' 1, entry ''c'' 3] 0 0;
       F = sample_node Follower 2 None [entry ''init'' 0, entry ''a'' 1, entry ''b'' 2, entry ''d'' 2] 0 1
   in the_logs (snd ((replicate_round (deliver blank_io) 1 ^^ 4) (L, F))) = the_logs L"
  unfolding Let_def
  by (rule replication_converges [where nxt = "[1 \<mapsto> 2]" and mtc = Map.empty and n = 2])
    (auto simp: sample_node_def blank_io_total log_agree_def nth_Cons' take_Cons')

end
