(* ===== verification/Raft_Store.thy ===== *)
theory Raft_Store
  imports Raft_Replication
begin

text \<open>
  What reaches the state file: \<open>save_persistent\<close> and \<open>from_file\<close> are inverse to each other under the
  documented behaviour of files and of the JSON library, and the handlers hand their state to the file
  before they answer. A \<open>tokio\<close> file writes in the background: \<open>write_all\<close> returns when the data is
  handed over, and nothing in the sources flushes it.
\<close>

text \<open>
  Documented behaviour of a file opened for reading and writing, where \<open>contents\<close> is what it holds once
  the data handed over has been written: \<open>seek\<close> moves the position, \<open>set_len\<close> makes the file that
  long and keeps the position, \<open>write_all\<close> replaces the bytes from the position on.
\<close>

definition file_laws :: "('a, 'f) raft_io \<Rightarrow> ('f \<Rightarrow> string) \<Rightarrow> ('f \<Rightarrow> nat) \<Rightarrow> bool" where
  "file_laws io contents pos \<longleftrightarrow>
     (\<forall>n h m h'. seek_start io n h = (Inr m, h') \<longrightarrow> contents h' = contents h \<and> pos h' = n) \<and>
     (\<forall>n h h'. set_len io n h = (Inr (), h') \<longrightarrow> length (contents h') = n \<and> pos h' = pos h) \<and>
     (\<forall>s h h'. write_all io s h = (Inr (), h') \<longrightarrow> pos h \<le> length (contents h) \<longrightarrow>
        contents h' = take (pos h) (contents h) @ s @ drop (pos h + length s) (contents h))"




text \<open>What the JSON printer writes, the parser reads back.\<close>

definition json_laws :: "('a, 'f) raft_io \<Rightarrow> bool" where
  "json_laws io \<longleftrightarrow> (\<forall>p s. to_string_pretty io p = Inr s \<longrightarrow> from_str io s = Inr p)"

text \<open>The file holds exactly the node's persistent state.\<close>

definition durable :: "('a, 'f) raft_io \<Rightarrow> ('f \<Rightarrow> string) \<Rightarrow> ('a, 'f) State \<Rightarrow> bool" where
  "durable io contents st \<longleftrightarrow> from_str io (contents (state_file (state st))) = Inr (pers st)"

lemma save_contents:
  assumes "file_laws io contents pos" and "save_persistent io v = (Inr (), v')"
  obtains s where "to_string_pretty io (persistent v) = Inr s" and "contents (state_file v') = s"
    and "persistent v' = persistent v"
proof -
  from assms(2) obtain s m h1 h2 h3 where
    s: "to_string_pretty io (persistent v) = Inr s" and
    h1: "seek_start io 0 (state_file v) = (Inr m, h1)" and
    h2: "set_len io (length s) h1 = (Inr (), h2)" and
    h3: "write_all io s h2 = (Inr (), h3)" and
    v': "v' = v\<lparr>state_file := h3\<rparr>"
    by (auto simp: save_persistent_def on_file_def lift_anyhow_def prog_simps
        split: prod.splits sum.splits)
  from assms(1) h1 h2 have "pos h2 = 0" "length (contents h2) = length s"
    unfolding file_laws_def by metis+
  with assms(1) h3 have "contents h3 = s"
    unfolding file_laws_def by (metis append_Nil append_Nil2 drop_all le0 order_refl plus_nat.add_0 take0)
  with s v' that show thesis by simp
qed


lemma shared_save_durable:
  assumes "file_laws io contents pos" and "json_laws io" and "shared (save_persistent io) st = (Inr (), st')"
  shows "durable io contents st'"
proof -
  from assms(3) obtain v' where v': "save_persistent io (state st) = (Inr (), v')" "st' = st\<lparr>state := v'\<rparr>"
    by (auto simp: shared_def prog_simps split: prod.splits)
  obtain s where "to_string_pretty io (persistent (state st)) = Inr s" "contents (state_file v') = s"
      "persistent v' = persistent (state st)"
    using save_contents [OF assms(1) v'(1)] by blast
  with assms(2) v'(2) show ?thesis
    by (simp add: durable_def json_laws_def)
qed









section \<open>Properties of the state file\<close>

text \<open>
  Property C19. A restart restores what was saved: after a successful \<open>save_persistent\<close>, and once the data
  it handed over is in the file, opening the state file again with \<open>from_file\<close> gives a follower with commit index 0 and the saved term, vote
  and log.
\<close>

theorem restart_restores:
  assumes "file_laws io contents pos" and "json_laws io"
    and "save_persistent io v = (Inr (), v')"
    and "path_exists io path" and "open_file io path = Inr h"
    and "read_to_string io h = (Inr (contents (state_file v')), h')"
  shows "from_file io path self srv =
    Inr \<lparr>state = \<lparr>role = Follower, state_file = h', persistent = persistent v, commit_index = 0\<rparr>,
         timeout_cancel = 0, servers = srv, me = self\<rparr>"
proof -
  obtain s where "to_string_pretty io (persistent v) = Inr s" "contents (state_file v') = s"
    using save_contents [OF assms(1,3)] by blast
  with assms(2) have "from_str io (contents (state_file v')) = Inr (persistent v)"
    by (simp add: json_laws_def)
  with assms(4-6) show ?thesis by (simp add: from_file_def Let_def)
qed

text \<open>A JSON library for one document, and a disk that holds it.\<close>

definition one_doc :: "nat Persistent" where
  "one_doc = \<lparr>current_term = 7, voted_for = Some 2, logs = [entry ''init'' 0, entry ''x'' 7]\<rparr>"

definition one_doc_io :: "(nat, string \<times> nat) raft_io" where
  "one_doc_io = (ram_io (\<lambda>_. []) (\<lambda>s. if s = ''doc'' then Inr one_doc else Inl ''parse error'')
                   [''0.json'' \<mapsto> ''doc''])
     \<lparr>to_string_pretty := (\<lambda>p. if p = one_doc then Inr ''doc'' else Inl ''cannot print'')\<rparr>"

lemma ram_file_laws: "file_laws (ram_io pr de disk) fst snd"
  by (auto simp: file_laws_def ram_io_def)

lemma one_doc_laws: "file_laws one_doc_io fst snd" "json_laws one_doc_io"
  using ram_file_laws
  by (auto simp: one_doc_io_def file_laws_def json_laws_def ram_io_def split: if_splits)

theorem restart_restores_witness:
  "let v = \<lparr>role = Candidate, state_file = (''something longer'', 9), persistent = one_doc, commit_index = 4\<rparr>
   in save_persistent one_doc_io v = (Inr (), v\<lparr>state_file := (''doc'', 3)\<rparr>) \<and>
      from_file one_doc_io ''0.json'' 0 [0, 1, 2] =
        Inr \<lparr>state = \<lparr>role = Follower, state_file = (''doc'', 3), persistent = one_doc, commit_index = 0\<rparr>,
             timeout_cancel = 0, servers = [0, 1, 2], me = 0\<rparr>"
proof -
  let ?v = "\<lparr>role = Candidate, state_file = (''something longer'', 9 :: nat), persistent = one_doc,
             commit_index = 4\<rparr>"
  have save: "save_persistent one_doc_io ?v = (Inr (), ?v\<lparr>state_file := (''doc'', 3)\<rparr>)"
    by (simp add: save_persistent_def on_file_def lift_anyhow_def one_doc_io_def ram_io_def prog_simps)
  have "from_file one_doc_io ''0.json'' 0 [0, 1, 2] =
      Inr \<lparr>state = \<lparr>role = Follower, state_file = (''doc'', 3), persistent = persistent ?v, commit_index = 0\<rparr>,
           timeout_cancel = 0, servers = [0, 1, 2], me = 0\<rparr>"
    by (rule restart_restores [OF one_doc_laws save, where h = "(''doc'', 0)"])
      (simp_all add: one_doc_io_def ram_io_def)
  with save show ?thesis by (simp add: Let_def)
qed





text \<open>
  Property C23. The vote on disk lags behind a new election: \<open>open_election\<close> saves the increased term
  before it clears the vote, so the file then pairs the new term with the vote of the old one,
  while the node itself has no vote. A node restarted from that file refuses candidates it would
  have voted for.
\<close>

theorem election_saves_old_vote:
  assumes "file_laws io contents pos" and "json_laws io"
    and "election_begin io False st = (Inr True, st')"
  shows "from_str io (contents (state_file (state st'))) = Inr ((pers st)\<lparr>current_term := cur_term st + 1\<rparr>) \<and>
    pers st' = (pers st)\<lparr>current_term := cur_term st + 1, voted_for := None\<rparr>"
proof -
  define u where "u = st\<lparr>timeout_cancel := Suc (timeout_cancel st),
    state := (state st)\<lparr>role := Candidate, persistent := (pers st)\<lparr>current_term := cur_term st + 1\<rparr>\<rparr>\<rparr>"
  from assms(3) obtain w where w: "shared (save_persistent io) u = (Inr (), w)"
    and st': "st' = w\<lparr>state := (state w)\<lparr>persistent := (pers w)\<lparr>voted_for := None\<rparr>\<rparr>\<rparr>"
    by (auto simp: election_begin_def upd_defs u_def elim!: bindE_InrD split: if_splits)
  have "pers w = (pers st)\<lparr>current_term := cur_term st + 1\<rparr>"
    using save_same [OF w] by (simp add: u_def)
  with shared_save_durable [OF assms(1,2) w] st' show ?thesis
    by (simp add: durable_def)
qed

theorem election_saves_old_vote_witness:
  "let st = sample_node Follower 6 (Some 2) (logs one_doc) 0 1;
       st' = snd (election_begin one_doc_io False st)
   in from_str one_doc_io (fst (state_file (state st'))) = Inr one_doc \<and>
      voted_for one_doc = Some 2 \<and> voted_for (pers st') = None"
proof -
  let ?st = "sample_node Follower 6 (Some 2) (logs one_doc) 0 1"
  have f: "fst (election_begin one_doc_io False ?st) = Inr True"
    by (simp add: raft_eval prog_simps one_doc_io_def one_doc_def)
  from election_saves_old_vote [OF one_doc_laws run_eqI [OF f]] show ?thesis
    by (simp add: Let_def sample_node_def one_doc_def)
qed

end
