(* ===== verification/Raft_Timer.thy ===== *)
theory Raft_Timer
  imports Raft_Node
begin

text \<open>
  The clocks of \<open>src/raft2/src/lib.rs\<close>: the loop of \<open>launch\<close>, which waits for a message on the cancel
  channel or for the timeout, the random wait at the start of \<open>open_election\<close>, and the heartbeat loop of
  a leader. Times are milliseconds. The cancel channel of a server is the list of the times at which
  \<open>putoff_timeout\<close> sends on it, in order.
\<close>

section \<open>The loop of a server\<close>

definition sent_by :: "nat list \<Rightarrow> nat \<Rightarrow> nat" where
  "sent_by ms x = length (takeWhile (\<lambda>t. t \<le> x) ms)"

text \<open>The size of the broadcast channel; a receiver that is further behind misses messages.\<close>

definition channel_size :: nat where
  "channel_size = 1024"

text \<open>
  \<open>Watching cur now\<close>: the loop is at its head at time \<open>now\<close>, its receiver has read \<open>cur\<close> messages.
  \<open>Opened e\<close>: \<open>open_election\<close> has passed its check of the channel at time \<open>e\<close>.
\<close>

datatype timer = Watching nat nat | Opened nat

text \<open>
  What an iteration may choose: the random wait, and which branch \<open>select!\<close> takes when both are ready.
\<close>

record choice =
  wait :: nat
  prefer_recv :: bool

definition recv_first :: "nat \<Rightarrow> choice \<Rightarrow> nat list \<Rightarrow> nat \<Rightarrow> nat \<Rightarrow> bool" where
  "recv_first timeout ch ms cur now \<longleftrightarrow> cur < length ms \<and>
     (ms ! cur < now + timeout \<or> ms ! cur = now + timeout \<and> prefer_recv ch)"

text \<open>
  One iteration. \<open>recv\<close> returns at once when the receiver is behind, also with the error that messages
  were missed. The receiver handed to \<open>open_election\<close> sees what is sent from the head of the loop on; it
  cancels the election if its first \<open>try_recv\<close> gives a message, which it does not after missing some.
\<close>

definition launch_iter :: "nat \<Rightarrow> choice \<Rightarrow> nat list \<Rightarrow> nat \<Rightarrow> nat \<Rightarrow> timer" where
  "launch_iter timeout ch ms cur now =
     (if sent_by ms now > cur + channel_size then Watching (sent_by ms now - channel_size) now
      else if recv_first timeout ch ms cur now then Watching (Suc cur) (max now (ms ! cur))
      else (let e = now + timeout + wait ch; got = sent_by ms e - sent_by ms now
            in if 0 < got \<and> got \<le> channel_size then Watching cur e else Opened e))"

text \<open>The time of the first election that is not cancelled, within the given choices.\<close>

fun launch :: "nat \<Rightarrow> choice list \<Rightarrow> nat list \<Rightarrow> nat \<Rightarrow> nat \<Rightarrow> nat option" where
  "launch timeout [] ms cur now = None"
| "launch timeout (ch # chs) ms cur now = (case launch_iter timeout ch ms cur now of
      Watching cur' now' \<Rightarrow> launch timeout chs ms cur' now'
    | Opened e \<Rightarrow> Some e)"

section \<open>The heartbeats of a leader\<close>

text \<open>
  The starts of the rounds of a leader's heartbeat loop whose first round starts at \<open>now\<close>: a round that
  took \<open>elapsed\<close> is followed by a sleep for the rest of the heartbeat interval, if any is left.
\<close>

fun heartbeat_starts :: "nat \<Rightarrow> nat list \<Rightarrow> nat \<Rightarrow> nat list" where
  "heartbeat_starts heartbeat [] now = []"
| "heartbeat_starts heartbeat (elapsed # es) now =
     now # heartbeat_starts heartbeat es (if heartbeat > elapsed then now + elapsed + (heartbeat - elapsed) else now + elapsed)"

text \<open>When the request of each round is handled at one server: \<open>ds\<close> after the round's start.\<close>

definition arrivals :: "nat list \<Rightarrow> nat list \<Rightarrow> nat list" where
  "arrivals starts ds = map2 (+) starts ds"

section \<open>Facts\<close>

lemma sent_by_le: "sent_by ms x \<le> length ms"
  by (simp add: sent_by_def length_takeWhile_le)

lemma sent_by_iff:
  assumes "sorted ms" and "i < length ms"
  shows "i < sent_by ms x \<longleftrightarrow> ms ! i \<le> x"
proof
  assume "i < sent_by ms x"
  then show "ms ! i \<le> x" unfolding sent_by_def by (metis (lifting) nth_mem set_takeWhileD takeWhile_nth)
next
  assume le: "ms ! i \<le> x"
  show "i < sent_by ms x"
  proof (rule ccontr)
    assume "\<not> i < sent_by ms x"
    then have n: "sent_by ms x \<le> i" by simp
    then have "sent_by ms x < length ms" using assms(2) by simp
    then have "\<not> ms ! sent_by ms x \<le> x" unfolding sent_by_def by (rule nth_length_takeWhile)
    moreover have "ms ! sent_by ms x \<le> ms ! i" using n assms by (intro sorted_nth_mono)
    ultimately show False using le by simp
  qed
qed

lemma sorted_last:
  assumes "sorted ms" and "t \<in> set ms"
  shows "t \<le> last ms"
proof -
  obtain i where i: "i < length ms" "t = ms ! i" using assms(2) by (auto simp: in_set_conv_nth)
  then have "ms ! i \<le> ms ! (length ms - 1)" by (intro sorted_nth_mono [OF assms(1)]) auto
  moreover have "last ms = ms ! (length ms - 1)" using i(1) by (intro last_conv_nth) auto
  ultimately show ?thesis using i(2) by simp
qed

lemma sent_by_all: "sorted ms \<Longrightarrow> \<forall>t \<in> set ms. t \<le> x \<Longrightarrow> sent_by ms x = length ms"
  by (simp add: sent_by_def takeWhile_eq_all_conv [THEN iffD2])

text \<open>Messages less than the timeout apart, the first less than the timeout after the start.\<close>

definition steady :: "nat \<Rightarrow> nat \<Rightarrow> nat list \<Rightarrow> bool" where
  "steady timeout start ms \<longleftrightarrow> ms \<noteq> [] \<and> sorted ms \<and> start \<le> hd ms \<and> hd ms < start + timeout \<and>
     (\<forall>i. Suc i < length ms \<longrightarrow> ms ! Suc i < ms ! i + timeout)"

text \<open>Where the loop stands while the messages last: at the time of the last message it has read.\<close>

definition on_track :: "nat \<Rightarrow> nat list \<Rightarrow> nat \<Rightarrow> nat \<Rightarrow> bool" where
  "on_track start ms cur now \<longleftrightarrow> cur \<le> length ms \<and> now = (if cur = 0 then start else ms ! (cur - 1))"

lemma on_track_next:
  assumes "steady timeout start ms" and "on_track start ms cur now" and "cur < length ms"
  shows "now \<le> ms ! cur" and "ms ! cur < now + timeout"
proof -
  have "now \<le> ms ! cur \<and> ms ! cur < now + timeout"
  proof (cases cur)
    case 0
    with assms show ?thesis by (auto simp: steady_def on_track_def hd_conv_nth)
  next
    case (Suc k)
    with assms show ?thesis by (auto simp: steady_def on_track_def intro: sorted_nth_mono)
  qed
  then show "now \<le> ms ! cur" "ms ! cur < now + timeout" by simp_all
qed

lemma on_track_behind:
  assumes "steady timeout start ms" and "on_track start ms cur now" and "cur < j" and "j \<le> sent_by ms now"
  shows "on_track start ms j now"
proof -
  have s: "sorted ms" using assms(1) by (simp add: steady_def)
  have j: "j - 1 < length ms" "cur < length ms" "cur \<le> j - 1" using assms(3,4) sent_by_le [of ms now] by linarith+
  have "j - 1 < sent_by ms now" using assms(3,4) by linarith
  then have "ms ! (j - 1) \<le> now" using sent_by_iff [OF s j(1)] by simp
  moreover have "now \<le> ms ! cur" using on_track_next(1) [OF assms(1,2) j(2)] .
  moreover have "ms ! cur \<le> ms ! (j - 1)" using sorted_nth_mono [OF s j(3,1)] .
  ultimately show ?thesis using assms(3) j by (simp add: on_track_def)
qed

text \<open>While messages last the loop reads on; after the last one the timeout runs.\<close>

lemma launch_iter_steady:
  assumes "steady timeout start ms" and "on_track start ms cur now"
  shows "(\<exists>cur' now'. launch_iter timeout ch ms cur now = Watching cur' now' \<and> cur < cur' \<and> on_track start ms cur' now') \<or>
    cur = length ms \<and> launch_iter timeout ch ms cur now = Opened (last ms + timeout + wait ch)"
proof (cases "cur < length ms")
  case True
  note n = on_track_next [OF assms True]
  show ?thesis
  proof (cases "sent_by ms now > cur + channel_size")
    case behind: True
    then show ?thesis using on_track_behind [OF assms, of "sent_by ms now - channel_size"]
      by (auto simp: launch_iter_def channel_size_def)
  next
    case False
    have "on_track start ms (Suc cur) (ms ! cur)" using True by (simp add: on_track_def)
    with False n True show ?thesis by (simp add: launch_iter_def recv_first_def max_absorb2)
  qed
next
  case False
  then have c: "cur = length ms" using assms(2) by (simp add: on_track_def)
  have ne: "ms \<noteq> []" and s: "sorted ms" using assms(1) by (simp_all add: steady_def)
  have now: "now = last ms" using assms(2) c ne by (simp add: on_track_def last_conv_nth)
  have all: "\<forall>t \<in> set ms. t \<le> last ms" using sorted_last [OF s] by blast
  have "sent_by ms x = length ms" if "last ms \<le> x" for x
    using all that by (intro sent_by_all [OF s]) (auto intro: le_trans)
  with c now show ?thesis by (simp add: launch_iter_def recv_first_def Let_def)
qed

lemma launch_steady:
  assumes "steady timeout start ms" and "on_track start ms cur now" and "length ms - cur < length chs"
  shows "\<exists>ch \<in> set chs. launch timeout chs ms cur now = Some (last ms + timeout + wait ch)"
  using assms(2,3)
proof (induction chs arbitrary: cur now)
  case (Cons ch chs)
  from launch_iter_steady [OF assms(1) Cons.prems(1), of ch] show ?case
  proof (elim disjE exE conjE)
    fix cur' now'
    assume it: "launch_iter timeout ch ms cur now = Watching cur' now'" "cur < cur'" "on_track start ms cur' now'"
    then have "length ms - cur' < length chs" using Cons.prems(2) by (auto simp: on_track_def)
    from Cons.IH [OF it(3) this] it(1) show ?thesis by auto
  qed auto
qed simp

text \<open>The rounds of a leader are at most one interval or one round apart.\<close>

lemma heartbeat_starts_length [simp]: "length (heartbeat_starts hb es now) = length es"
  by (induction es arbitrary: now) auto

lemma heartbeat_starts_step:
  "Suc i < length es \<Longrightarrow>
    heartbeat_starts hb es now ! Suc i = heartbeat_starts hb es now ! i + max hb (es ! i)"
proof (induction es arbitrary: i now)
  case (Cons e es)
  then show ?case by (cases i; cases es) (auto simp: max_def)
qed simp

lemma arrivals_nth:
  "i < length es \<Longrightarrow> length ds = length es \<Longrightarrow>
    arrivals (heartbeat_starts hb es now) ds ! i = heartbeat_starts hb es now ! i + ds ! i"
  by (simp add: arrivals_def)

text \<open>
  Rounds that take at most \<open>limit\<close>, each handled before its round ends, reach a server steadily as long
  as interval and limit together stay below the timeout.
\<close>

lemma heartbeats_steady:
  assumes "es \<noteq> []" and "length ds = length es" and "\<forall>e \<in> set es. e \<le> limit"
    and "\<forall>i < length es. ds ! i \<le> es ! i" and "max hb limit + limit < timeout"
    and "start \<le> now" and "now + ds ! 0 < start + timeout"
  shows "steady timeout start (arrivals (heartbeat_starts hb es now) ds)"
proof -
  let ?h = "heartbeat_starts hb es now" and ?a = "arrivals (heartbeat_starts hb es now) ds"
  have len: "length ?a = length es" using assms(2) by (simp add: arrivals_def)
  have step: "?a ! i \<le> ?a ! Suc i \<and> ?a ! Suc i < ?a ! i + timeout" if i: "Suc i < length es" for i
  proof -
    have e: "es ! i \<le> limit" "ds ! i \<le> es ! i" "ds ! Suc i \<le> limit"
      using i assms(3,4) by (auto intro: le_trans [OF _ bspec [OF assms(3)]])
    have "?a ! Suc i = ?h ! i + max hb (es ! i) + ds ! Suc i" "?a ! i = ?h ! i + ds ! i"
      using i assms(2) by (simp_all add: arrivals_nth heartbeat_starts_step)
    with e assms(5) show ?thesis by linarith
  qed
  have "sorted ?a" unfolding sorted_iff_nth_Suc using step len by simp
  moreover have "?a ! 0 = now + ds ! 0" using assms(1,2) arrivals_nth [of 0 es ds hb now] by (cases es) auto
  moreover have "?a \<noteq> []" using len assms(1) by auto
  ultimately show ?thesis using step len assms(6,7) by (simp add: steady_def hd_conv_nth)
qed

section \<open>Properties of the clocks\<close>

text \<open>
  Property C14. A leader that gets through is not challenged, and one that falls silent is noticed: if the
  rounds of its heartbeat loop take at most \<open>limit\<close> each, a server handles each request before its round
  ends, and the interval and the limit together stay below the timeout, then the server's loop opens no
  election before a full timeout after the last heartbeat, and it does open one at most two timeouts
  after it.
\<close>

theorem heartbeats_hold_off_elections:
  assumes "es \<noteq> []" and "length ds = length es" and "\<forall>e \<in> set es. e \<le> limit"
    and "\<forall>i < length es. ds ! i \<le> es ! i" and "max hb limit + limit < timeout"
    and "start \<le> now" and "now + ds ! 0 < start + timeout"
    and "length es < length chs" and "\<forall>ch \<in> set chs. wait ch \<le> timeout"
  defines "ms \<equiv> arrivals (heartbeat_starts hb es now) ds"
  shows "\<exists>e. launch timeout chs ms 0 start = Some e \<and> last ms + timeout \<le> e \<and> e \<le> last ms + 2 * timeout"
proof -
  have st: "steady timeout start ms" unfolding ms_def by (rule heartbeats_steady [OF assms(1-7)])
  have "on_track start ms 0 start" by (simp add: on_track_def)
  moreover have "length ms - 0 < length chs" using assms(2,8) by (simp add: ms_def arrivals_def)
  ultimately obtain ch where "ch \<in> set chs" "launch timeout chs ms 0 start = Some (last ms + timeout + wait ch)"
    using launch_steady [OF st] by blast
  with assms(9) show ?thesis by auto
qed

text \<open>The settings of \<open>main\<close>: a timeout of 1000, an interval of 300, requests of at most a third of the timeout.\<close>

theorem heartbeats_hold_off_elections_witness:
  "\<exists>e. launch 1000 (replicate 3 \<lparr>wait = 250, prefer_recv = False\<rparr>)
      (arrivals (heartbeat_starts 300 [20, 333] 100) [10, 40]) 0 0 = Some e \<and> 1440 \<le> e \<and> e \<le> 2440"
proof -
  let ?es = "[20, 333 :: nat]" and ?ds = "[10, 40 :: nat]" and ?chs = "replicate 3 \<lparr>wait = 250, prefer_recv = False\<rparr>"
  have last: "last (arrivals (heartbeat_starts 300 ?es 100) ?ds) = 440" by (simp add: arrivals_def)
  have "\<forall>i < length ?es. ?ds ! i \<le> ?es ! i" by (simp add: less_Suc_eq)
  from heartbeats_hold_off_elections [OF _ _ _ this, of 333 300 1000 0 100 ?chs]
  show ?thesis unfolding last by simp
qed

end
