(* ===== verification/Raft_Cluster.thy ===== *)
theory Raft_Cluster
  imports Raft_Replication
begin

text \<open>
  A cluster of Raft servers as a transition system. \<open>open_election\<close> and \<open>send_append_entries\<close> release
  the state lock around their network calls, so each is a sequence of events (the programs of
  \<open>Raft_Node\<close>) that interleave with the events of the other servers. A vote request is sent while the
  candidate holds its read lock, so its state cannot change before the answer or the timeout: the
  exchange is one event, placed where the voter handles it. A request whose sender gave up may still
  be handled later; those are kept as orphans. The loop in \<open>launch\<close> runs one election at a time.
\<close>

section \<open>State\<close>

text \<open>One task of \<open>send_append_entries\<close>.\<close>

datatype append_task =
    Todo
  | Sent AppendEntriesRequest
  | Answered bool
  | Finished "raft_error + bool"

text \<open>A running \<open>send_append_entries\<close>: its server, its tasks, and its result once it returned.\<close>

record 'a append_run =
  owner :: 'a
  tasks :: "'a \<Rightarrow> append_task"
  outcome :: "(raft_error + bool) option"

text \<open>
  \<open>election\<close> holds, for a server whose \<open>open_election\<close> is waiting for votes, the term it was opened in
  and the results so far. The last four fields are auxiliary history: the votes granted (voter, term,
  candidate), the votes asked for (candidate, voter, term), the elections opened (server, term) and
  the elections won (server, term, servers counted).
\<close>

record ('a, 'f) cluster =
  node :: "'a \<Rightarrow> ('a, 'f) State"
  election :: "'a \<rightharpoonup> u64 \<times> ('a \<rightharpoonup> raft_error + bool)"
  runs :: "'a append_run list"
  late_appends :: "('a \<times> AppendEntriesRequest) list"
  late_votes :: "('a \<times> 'a RequestVoteRequest) list"
  granted :: "('a \<times> u64 \<times> 'a) set"
  asked :: "('a \<times> 'a \<times> u64) set"
  ran :: "('a \<times> u64) set"
  won :: "('a \<times> u64 \<times> 'a set) set"

datatype 'a event =
    StartElection 'a bool
  | AskVote 'a 'a
  | VoteTimeout 'a 'a
  | LateVote nat
  | FinishElection 'a
  | StartAppend 'a "string list"
  | BuildAppend nat 'a
  | HandleAppend nat 'a
  | AppendTimeout nat 'a
  | LateAppend nat
  | ReplyAppend nat 'a
  | FinishAppend nat

section \<open>Events\<close>

definition put_node :: "'a \<Rightarrow> ('a, 'f) State \<Rightarrow> ('a, 'f) cluster \<Rightarrow> ('a, 'f) cluster" where
  "put_node a st c = c\<lparr>node := (node c)(a := st)\<rparr>"

definition drop_nth :: "nat \<Rightarrow> 'x list \<Rightarrow> 'x list" where
  "drop_nth i xs = take i xs @ drop (Suc i) xs"

text \<open>The voter's side of a vote request, and what the asking task makes of the answer.\<close>

definition cast_vote ::
    "('a, 'f) raft_io \<Rightarrow> 'a \<Rightarrow> 'a RequestVoteRequest \<Rightarrow> ('a, 'f) cluster \<Rightarrow> (raft_error + bool) \<times> ('a, 'f) cluster" where
  "cast_vote io b req c =
     (case request_vote io req (node c b) of
        (Inl e, st) \<Rightarrow> (Inl e, put_node b st c)
      | (Inr resp, st) \<Rightarrow>
          (Inr (vote_granted resp),
           (put_node b st c)\<lparr>granted := (if vote_granted resp then {(b, rv_term req, candidate_id req)} else {})
              \<union> granted c\<rparr>))"

definition set_result :: "'a \<Rightarrow> 'a \<Rightarrow> raft_error + bool \<Rightarrow> ('a, 'f) cluster \<Rightarrow> ('a, 'f) cluster" where
  "set_result a b r c = (case election c a of
      None \<Rightarrow> c
    | Some (t, res) \<Rightarrow> c\<lparr>election := (election c)(a \<mapsto> (t, res(b \<mapsto> r)))\<rparr>)"

definition note_asked :: "'a RequestVoteRequest \<Rightarrow> 'a \<Rightarrow> ('a, 'f) cluster \<Rightarrow> ('a, 'f) cluster" where
  "note_asked req b c = c\<lparr>asked := insert (candidate_id req, b, rv_term req) (asked c)\<rparr>"

text \<open>A vote task of \<open>a\<close> that has not ended.\<close>

definition vote_open :: "('a, 'f) cluster \<Rightarrow> 'a \<Rightarrow> 'a \<Rightarrow> bool" where
  "vote_open c a b = (case election c a of
      None \<Rightarrow> False
    | Some (t, res) \<Rightarrow> res b = None \<and> b \<in> set (servers (node c a)))"

definition set_task :: "nat \<Rightarrow> 'a \<Rightarrow> append_task \<Rightarrow> ('a, 'f) cluster \<Rightarrow> ('a, 'f) cluster" where
  "set_task i b x c = c\<lparr>runs := (runs c)[i := (runs c ! i)\<lparr>tasks := (tasks (runs c ! i))(b := x)\<rparr>]\<rparr>"

text \<open>The task of run \<open>i\<close> for server \<open>b\<close>, if there is one.\<close>

definition task_at :: "('a, 'f) cluster \<Rightarrow> nat \<Rightarrow> 'a \<Rightarrow> append_task option" where
  "task_at c i b = (if i < length (runs c) \<and> b \<in> set (servers (node c (owner (runs c ! i))))
     then Some (tasks (runs c ! i) b) else None)"

definition start_election :: "('a, 'f) raft_io \<Rightarrow> 'a \<Rightarrow> bool \<Rightarrow> ('a, 'f) cluster \<Rightarrow> ('a, 'f) cluster option" where
  "start_election io a rx_ready c =
     (if election c a \<noteq> None then None
      else case election_begin io rx_ready (node c a) of
        (Inr False, st) \<Rightarrow> Some (put_node a st c)
      | (Inr True, st) \<Rightarrow> Some ((put_node a st c)
          \<lparr>election := (election c)(a \<mapsto> (cur_term st, Map.empty)), ran := insert (a, cur_term st) (ran c)\<rparr>)
      | (Inl _, st) \<Rightarrow> Some ((put_node a st c)\<lparr>ran := insert (a, cur_term st) (ran c)\<rparr>))"

definition ask_vote :: "('a, 'f) raft_io \<Rightarrow> 'a \<Rightarrow> 'a \<Rightarrow> ('a, 'f) cluster \<Rightarrow> ('a, 'f) cluster option" where
  "ask_vote io a b c =
     (if \<not> vote_open c a b then None
      else case election_request (node c a) b of
        None \<Rightarrow> Some (set_result a b (Inr True) c)
      | Some req \<Rightarrow> (case cast_vote io b req (note_asked req b c) of
          (r, c') \<Rightarrow> Some (set_result a b r c')))"

definition vote_timeout :: "'a \<Rightarrow> 'a \<Rightarrow> ('a, 'f) cluster \<Rightarrow> ('a, 'f) cluster option" where
  "vote_timeout a b c =
     (if \<not> vote_open c a b then None
      else case election_request (node c a) b of
        None \<Rightarrow> None
      | Some req \<Rightarrow> Some (set_result a b (Inl (Anyhow ''timeout''))
          ((note_asked req b c)\<lparr>late_votes := late_votes c @ [(b, req)]\<rparr>)))"

definition late_vote :: "('a, 'f) raft_io \<Rightarrow> nat \<Rightarrow> ('a, 'f) cluster \<Rightarrow> ('a, 'f) cluster option" where
  "late_vote io i c =
     (if i < length (late_votes c)
      then (case late_votes c ! i of (b, req) \<Rightarrow>
              Some (snd (cast_vote io b req (c\<lparr>late_votes := drop_nth i (late_votes c)\<rparr>))))
      else None)"

text \<open>The servers whose task counted as a vote.\<close>

definition counted :: "'a list \<Rightarrow> ('a \<rightharpoonup> raft_error + bool) \<Rightarrow> 'a set" where
  "counted srv res = {b \<in> set srv. res b = Some (Inr True)}"

definition finish_election :: "('a, 'f) raft_io \<Rightarrow> 'a \<Rightarrow> ('a, 'f) cluster \<Rightarrow> ('a, 'f) cluster option" where
  "finish_election io a c = (case election c a of
      None \<Rightarrow> None
    | Some (t, res) \<Rightarrow>
        let srv = servers (node c a) in
        if \<exists>b \<in> set srv. res b = None then None
        else (case election_finish io (map (\<lambda>b. the (res b)) srv) (node c a) of
          (r, st) \<Rightarrow> Some ((put_node a st c)
            \<lparr>election := (election c)(a := None),
             won := (if r = Inr True then {(a, cur_term (node c a), counted srv res)} else {}) \<union> won c\<rparr>)))"

definition start_append :: "('a, 'f) raft_io \<Rightarrow> 'a \<Rightarrow> string list \<Rightarrow> ('a, 'f) cluster \<Rightarrow> ('a, 'f) cluster option" where
  "start_append io a texts c = (case send_append_begin io texts (node c a) of
      (Inl _, st) \<Rightarrow> Some (put_node a st c)
    | (Inr _, st) \<Rightarrow> Some ((put_node a st c)
        \<lparr>runs := runs c @ [\<lparr>owner = a, tasks = (\<lambda>_. Todo), outcome = None\<rparr>]\<rparr>))"

definition build_append :: "nat \<Rightarrow> 'a \<Rightarrow> ('a, 'f) cluster \<Rightarrow> ('a, 'f) cluster option" where
  "build_append i b c = (if task_at c i b = Some Todo
     then (let a = owner (runs c ! i) in
           case send_append_build b (node c a) of
             (Inl e, st) \<Rightarrow> Some (set_task i b (Finished (Inl e)) (put_node a st c))
           | (Inr (Inl r), st) \<Rightarrow> Some (set_task i b (Finished (Inr r)) (put_node a st c))
           | (Inr (Inr req), st) \<Rightarrow> Some (set_task i b (Sent req) (put_node a st c)))
     else None)"

definition handle_append :: "('a, 'f) raft_io \<Rightarrow> nat \<Rightarrow> 'a \<Rightarrow> ('a, 'f) cluster \<Rightarrow> ('a, 'f) cluster option" where
  "handle_append io i b c = (case task_at c i b of
      Some (Sent req) \<Rightarrow> (case append_entries io req (node c b) of
          (Inl e, st) \<Rightarrow> Some (set_task i b (Finished (Inl e)) (put_node b st c))
        | (Inr resp, st) \<Rightarrow> Some (set_task i b (Answered (success resp)) (put_node b st c)))
    | _ \<Rightarrow> None)"

definition append_timeout :: "nat \<Rightarrow> 'a \<Rightarrow> ('a, 'f) cluster \<Rightarrow> ('a, 'f) cluster option" where
  "append_timeout i b c = (case task_at c i b of
      Some (Sent req) \<Rightarrow> Some (set_task i b (Finished (Inl (Anyhow ''timeout'')))
        (c\<lparr>late_appends := late_appends c @ [(b, req)]\<rparr>))
    | _ \<Rightarrow> None)"

definition late_append :: "('a, 'f) raft_io \<Rightarrow> nat \<Rightarrow> ('a, 'f) cluster \<Rightarrow> ('a, 'f) cluster option" where
  "late_append io i c =
     (if i < length (late_appends c)
      then (case late_appends c ! i of (b, req) \<Rightarrow>
              Some (put_node b (snd (append_entries io req (node c b)))
                (c\<lparr>late_appends := drop_nth i (late_appends c)\<rparr>)))
      else None)"

definition reply_append :: "nat \<Rightarrow> 'a \<Rightarrow> ('a, 'f) cluster \<Rightarrow> ('a, 'f) cluster option" where
  "reply_append i b c = (case task_at c i b of
      Some (Answered s) \<Rightarrow> (let a = owner (runs c ! i) in
        case send_append_reply b s (node c a) of
          (r, st) \<Rightarrow> Some (set_task i b (Finished r) (put_node a st c)))
    | _ \<Rightarrow> None)"

definition task_result :: "append_task \<Rightarrow> (raft_error + bool) option" where
  "task_result x = (case x of Finished r \<Rightarrow> Some r | _ \<Rightarrow> None)"

definition finish_append :: "nat \<Rightarrow> ('a, 'f) cluster \<Rightarrow> ('a, 'f) cluster option" where
  "finish_append i c =
     (if i < length (runs c) \<and> outcome (runs c ! i) = None
      then (let a = owner (runs c ! i); srv = servers (node c a) in
            if \<exists>b \<in> set srv. task_result (tasks (runs c ! i) b) = None then None
            else (case send_append_finish (map (\<lambda>b. the (task_result (tasks (runs c ! i) b))) srv) (node c a) of
              (r, st) \<Rightarrow> Some ((put_node a st c)\<lparr>runs := (runs c)[i := (runs c ! i)\<lparr>outcome := Some r\<rparr>]\<rparr>)))
      else None)"

fun exec :: "('a, 'f) raft_io \<Rightarrow> 'a event \<Rightarrow> ('a, 'f) cluster \<Rightarrow> ('a, 'f) cluster option" where
  "exec io (StartElection a rx_ready) c = start_election io a rx_ready c"
| "exec io (AskVote a b) c = ask_vote io a b c"
| "exec io (VoteTimeout a b) c = vote_timeout a b c"
| "exec io (LateVote i) c = late_vote io i c"
| "exec io (FinishElection a) c = finish_election io a c"
| "exec io (StartAppend a texts) c = start_append io a texts c"
| "exec io (BuildAppend i b) c = build_append i b c"
| "exec io (HandleAppend i b) c = handle_append io i b c"
| "exec io (AppendTimeout i b) c = append_timeout i b c"
| "exec io (LateAppend i) c = late_append io i c"
| "exec io (ReplyAppend i b) c = reply_append i b c"
| "exec io (FinishAppend i) c = finish_append i c"

section \<open>Runs of the cluster\<close>

text \<open>Every server has just created its state file, and nothing is under way.\<close>

definition fresh_cluster :: "'a list \<Rightarrow> ('a, 'f) cluster \<Rightarrow> bool" where
  "fresh_cluster srv c \<longleftrightarrow> distinct srv \<and>
     (\<forall>a. role_of (node c a) = Follower \<and> pers (node c a) = init_persistent \<and> commit_of (node c a) = 0 \<and>
          servers (node c a) = srv \<and> me (node c a) = a) \<and>
     election c = Map.empty \<and> runs c = [] \<and> late_appends c = [] \<and> late_votes c = [] \<and>
     granted c = {} \<and> asked c = {} \<and> ran c = {} \<and> won c = {}"

definition cluster_step :: "('a, 'f) raft_io \<Rightarrow> ('a, 'f) cluster \<Rightarrow> ('a, 'f) cluster \<Rightarrow> bool" where
  "cluster_step io c c' \<longleftrightarrow> (\<exists>e. exec io e c = Some c')"

text \<open>\<open>c\<close> is reached after \<open>k\<close> events.\<close>

definition reach :: "('a, 'f) raft_io \<Rightarrow> 'a list \<Rightarrow> nat \<Rightarrow> ('a, 'f) cluster \<Rightarrow> bool" where
  "reach io srv = reaches (fresh_cluster srv) (cluster_step io)"

lemma reach_event: "reach io srv k c \<Longrightarrow> exec io e c = Some c' \<Longrightarrow> reach io srv (Suc k) c'"
  unfolding reach_def by (rule reaches_step) (auto simp: cluster_step_def)

fun exec_all :: "('a, 'f) raft_io \<Rightarrow> 'a event list \<Rightarrow> ('a, 'f) cluster \<Rightarrow> ('a, 'f) cluster option" where
  "exec_all io [] c = Some c"
| "exec_all io (e # es) c = (case exec io e c of None \<Rightarrow> None | Some c' \<Rightarrow> exec_all io es c')"

lemma exec_all_reach:
  assumes "reach io srv k c" and "exec_all io es c = Some c'"
  shows "reach io srv (k + length es) c'"
  using assms
proof (induction es arbitrary: k c)
  case Nil
  then show ?case by simp
next
  case (Cons e es)
  from Cons.prems(2) obtain c1 where c1: "exec io e c = Some c1" "exec_all io es c1 = Some c'"
    by (auto split: option.splits)
  from Cons.IH [OF reach_event [OF Cons.prems(1) c1(1)] c1(2)] show ?case by simp
qed

section \<open>What an event does to one server\<close>

text \<open>
  A server handles requests: its term never goes down, in a new term it is a follower, and in the
  same term it keeps its kind of role.
\<close>

definition same_kind :: "'a Role \<Rightarrow> 'a Role \<Rightarrow> bool" where
  "same_kind r r' \<longleftrightarrow> (is_leader r \<longleftrightarrow> is_leader r') \<and> (is_candidate r \<longleftrightarrow> is_candidate r')"

definition evolves :: "('a, 'f) State \<Rightarrow> ('a, 'f) State \<Rightarrow> bool" where
  "evolves st st' \<longleftrightarrow> me st' = me st \<and> servers st' = servers st \<and> cur_term st \<le> cur_term st' \<and>
     (cur_term st < cur_term st' \<longrightarrow> role_of st' = Follower) \<and>
     (cur_term st = cur_term st' \<longrightarrow> same_kind (role_of st) (role_of st'))"

lemma same_kind_refl [simp]: "same_kind r r"
  by (simp add: same_kind_def)

lemma evolves_refl [simp]: "evolves st st"
  by (simp add: evolves_def)

lemma settled_evolves: "settled t st u \<Longrightarrow> evolves st u"
  by (auto simp: settled_def evolves_def)

lemma append_entries_evolves:
  assumes "append_entries io req st = (r, st')"
  shows "evolves st st'"
    and "cur_term st' = max (cur_term st) (ae_term req)"
    and "cur_term st' = cur_term st \<Longrightarrow> voted_for (pers st') = voted_for (pers st)"
    and "the_logs st' = the_logs st \<or>
      prev_log_index req < length (the_logs st) \<and> the_logs st' = ae_merge req (the_logs st)"
    and "is_leader (role_of st') \<Longrightarrow> the_logs st' = the_logs st"
proof -
  have "evolves st st' \<and> cur_term st' = max (cur_term st) (ae_term req) \<and>
    (cur_term st' = cur_term st \<longrightarrow> voted_for (pers st') = voted_for (pers st)) \<and>
    (the_logs st' = the_logs st \<or>
      prev_log_index req < length (the_logs st) \<and> the_logs st' = ae_merge req (the_logs st)) \<and>
    (is_leader (role_of st') \<longrightarrow> the_logs st' = the_logs st)"
    using assms
  proof (cases rule: append_entries_cases)
    case (stored u)
    from settledD [OF stored(2)] stored(3,5-9) settled_evolves [OF stored(2)] stored(1)
    show ?thesis by (auto simp: evolves_def max_def ae_accepts_def)
  qed (auto simp: evolves_def max_def settled_def split: if_splits)
  then show "evolves st st'"
    and "cur_term st' = max (cur_term st) (ae_term req)"
    and "cur_term st' = cur_term st \<Longrightarrow> voted_for (pers st') = voted_for (pers st)"
    and "the_logs st' = the_logs st \<or>
      prev_log_index req < length (the_logs st) \<and> the_logs st' = ae_merge req (the_logs st)"
    and "is_leader (role_of st') \<Longrightarrow> the_logs st' = the_logs st"
    by blast+
qed

lemma request_vote_evolves:
  assumes "request_vote io req st = (r, st')"
  shows "evolves st st'"
    and "cur_term st' = max (cur_term st) (rv_term req)"
    and "cur_term st' = cur_term st \<Longrightarrow> voted_for (pers st) = Some d \<Longrightarrow> d \<noteq> candidate_id req \<Longrightarrow>
      voted_for (pers st') = Some d"
    and "the_logs st' = the_logs st"
    and "r = Inr resp \<Longrightarrow> vote_granted resp \<Longrightarrow> cur_term st' = rv_term req \<and>
      voted_for (pers st') = Some (candidate_id req) \<and>
      (cur_term st = rv_term req \<longrightarrow> voted_for (pers st) \<in> {None, Some (candidate_id req)})"
proof -
  have "evolves st st' \<and> cur_term st' = max (cur_term st) (rv_term req) \<and>
      (cur_term st' = cur_term st \<longrightarrow> voted_for (pers st) = Some d \<longrightarrow> d \<noteq> candidate_id req \<longrightarrow>
        voted_for (pers st') = Some d) \<and> the_logs st' = the_logs st"
    using assms
  proof (cases rule: request_vote_cases)
    case (decided u)
    from settledD [OF decided(1)] decided(3-9) settled_evolves [OF decided(1)]
    show ?thesis by (auto simp: evolves_def max_def rv_grants_def)
  qed (auto simp: evolves_def max_def settled_def split: if_splits)
  then show "evolves st st'" and "cur_term st' = max (cur_term st) (rv_term req)"
    and "cur_term st' = cur_term st \<Longrightarrow> voted_for (pers st) = Some d \<Longrightarrow> d \<noteq> candidate_id req \<Longrightarrow>
      voted_for (pers st') = Some d" and "the_logs st' = the_logs st"
    by blast+
  show "r = Inr resp \<Longrightarrow> vote_granted resp \<Longrightarrow> cur_term st' = rv_term req \<and>
      voted_for (pers st') = Some (candidate_id req) \<and>
      (cur_term st = rv_term req \<longrightarrow> voted_for (pers st) \<in> {None, Some (candidate_id req)})"
    using assms request_vote_answer(1,2) [of io req st resp st'] by (auto simp: rv_grants_def)
qed

text \<open>The leader's own stretches change neither term nor vote, and the log only grows.\<close>

definition leads_on :: "('a, 'f) State \<Rightarrow> ('a, 'f) State \<Rightarrow> bool" where
  "leads_on st st' \<longleftrightarrow> evolves st st' \<and> cur_term st' = cur_term st \<and>
     voted_for (pers st') = voted_for (pers st) \<and>
     (\<exists>es. the_logs st' = the_logs st @ es \<and> (\<forall>e \<in> set es. log_term e = cur_term st))"

lemma send_append_begin_leads: "send_append_begin io texts st = (r, st') \<Longrightarrow> leads_on st st'"
  by (auto simp: send_append_begin_def upd_defs leads_on_def evolves_def same_kind_def
      split: if_splits dest!: save_same)

lemma send_append_build_leads: "send_append_build b st = (r, st') \<Longrightarrow> leads_on st st'"
  by (auto simp: send_append_build_def upd_defs leads_on_def evolves_def same_kind_def of_opt_def Let_def
      split: Role.splits if_splits option.splits)

lemma send_append_reply_leads: "send_append_reply b s st = (r, st') \<Longrightarrow> leads_on st st'"
  by (auto simp: send_append_reply_def upd_defs leads_on_def evolves_def same_kind_def
      split: Role.splits if_splits option.splits)

lemma send_append_finish_leads: "send_append_finish rs st = (r, st') \<Longrightarrow> leads_on st st'"
  by (auto simp: send_append_finish_def upd_defs leads_on_def evolves_def same_kind_def
      split: if_splits)

lemmas leads = send_append_begin_leads send_append_build_leads send_append_reply_leads send_append_finish_leads

lemma election_begin_run:
  assumes "election_begin io rx st = (r, st')"
  shows "me st' = me st \<and> servers st' = servers st \<and> the_logs st' = the_logs st"
    and "r = Inr False \<Longrightarrow> st' = st"
    and "r \<noteq> Inr False \<Longrightarrow> cur_term st' = cur_term st + 1 \<and> role_of st' = Candidate"
  using assms
  by (auto simp: election_begin_def upd_defs bindE_app split: if_splits prod.splits sum.splits dest!: save_same)

lemma election_finish_run:
  assumes "election_finish io rs st = (r, st')"
  shows "me st' = me st \<and> servers st' = servers st \<and> the_logs st' = the_logs st \<and> cur_term st' = cur_term st"
    and "r = Inr True \<Longrightarrow> is_candidate (role_of st) \<and> count_true rs * 2 > length (servers st)"
    and "is_leader (role_of st') \<Longrightarrow> r = Inr True \<or> is_leader (role_of st)"
    and "\<not> is_candidate (role_of st) \<Longrightarrow> st' = st"
  using assms
  by (auto simp: election_finish_def upd_defs bindE_app split: if_splits prod.splits sum.splits dest!: save_same)

section \<open>The shape of an event\<close>

definition append_requests :: "('a, 'f) cluster \<Rightarrow> AppendEntriesRequest set" where
  "append_requests c = {req. \<exists>run \<in> set (runs c). \<exists>b. tasks run b = Sent req} \<union> snd ` set (late_appends c)"

text \<open>What an event may do to the server it runs on.\<close>

inductive node_step :: "('a, 'f) raft_io \<Rightarrow> ('a, 'f) cluster \<Rightarrow> ('a, 'f) State \<Rightarrow> ('a, 'f) State \<Rightarrow> bool"
  for io :: "('a, 'f) raft_io" and c :: "('a, 'f) cluster" where
  idle: "node_step io c st st"
| append: "append_entries io req st = (r, st') \<Longrightarrow> req \<in> append_requests c \<Longrightarrow> node_step io c st st'"
| vote: "request_vote io req st = (r, st') \<Longrightarrow>
    (b, req) \<in> set (late_votes c) \<or> (\<exists>a. election_request (node c a) b = Some req) \<Longrightarrow> node_step io c st st'"
| lead: "leads_on st st' \<Longrightarrow> node_step io c st st'"
| run: "election_begin io rx st = (r, st') \<Longrightarrow> node_step io c st st'"
| count: "election_finish io rs st = (r, st') \<Longrightarrow> node_step io c st st'"

lemma task_at_Some:
  assumes "task_at c i b = Some x"
  shows "i < length (runs c)" and "tasks (runs c ! i) b = x"
    and "b \<in> set (servers (node c (owner (runs c ! i))))"
  using assms by (auto simp: task_at_def split: if_splits)

lemma sent_request: "task_at c i b = Some (Sent req) \<Longrightarrow> req \<in> append_requests c"
  using task_at_Some [of c i b "Sent req"] nth_mem [of i "runs c"]
  by (auto simp: append_requests_def)

lemma late_request: "i < length (late_appends c) \<Longrightarrow> late_appends c ! i = (b, req) \<Longrightarrow> req \<in> append_requests c"
  using nth_mem [of i "late_appends c"] by (force simp: append_requests_def)

lemma cast_vote_node:
  assumes "cast_vote io b req c = (r, c')"
  obtains q st where "request_vote io req (node c b) = (q, st)" and "node c' = (node c)(b := st)"
  using assms by (auto simp: cast_vote_def put_node_def split: prod.splits sum.splits)

lemma set_result_node [simp]: "node (set_result a b r c) = node c" "late_votes (set_result a b r c) = late_votes c"
    "runs (set_result a b r c) = runs c" "late_appends (set_result a b r c) = late_appends c"
  by (auto simp: set_result_def split: option.splits)

lemma note_asked_simps [simp]: "node (note_asked req b c) = node c" "late_votes (note_asked req b c) = late_votes c"
    "runs (note_asked req b c) = runs c" "late_appends (note_asked req b c) = late_appends c"
    "election (note_asked req b c) = election c"
  by (simp_all add: note_asked_def)

lemma set_task_simps [simp]: "node (set_task i b x c) = node c" "late_votes (set_task i b x c) = late_votes c"
    "late_appends (set_task i b x c) = late_appends c" "election (set_task i b x c) = election c"
    "granted (set_task i b x c) = granted c" "asked (set_task i b x c) = asked c"
    "ran (set_task i b x c) = ran c" "won (set_task i b x c) = won c"
  by (simp_all add: set_task_def)

lemma put_node_simps [simp]: "node (put_node a st c) = (node c)(a := st)"
    "late_votes (put_node a st c) = late_votes c" "late_appends (put_node a st c) = late_appends c"
    "runs (put_node a st c) = runs c" "election (put_node a st c) = election c"
    "granted (put_node a st c) = granted c" "asked (put_node a st c) = asked c"
    "ran (put_node a st c) = ran c" "won (put_node a st c) = won c"
  by (simp_all add: put_node_def)

lemmas event_defs = start_election_def ask_vote_def vote_timeout_def late_vote_def finish_election_def
  start_append_def build_append_def handle_append_def append_timeout_def late_append_def
  reply_append_def finish_append_def

text \<open>The events of an election, and those of sending entries.\<close>

fun vote_event :: "'a event \<Rightarrow> bool" where
  "vote_event (StartElection _ _) = True"
| "vote_event (AskVote _ _) = True"
| "vote_event (VoteTimeout _ _) = True"
| "vote_event (LateVote _) = True"
| "vote_event (FinishElection _) = True"
| "vote_event _ = False"

text \<open>What sending entries may do to a server.\<close>

definition quiet_step :: "('a, 'f) raft_io \<Rightarrow> ('a, 'f) cluster \<Rightarrow> ('a, 'f) State \<Rightarrow> ('a, 'f) State \<Rightarrow> bool" where
  "quiet_step io c st st' \<longleftrightarrow> st' = st \<or> leads_on st st' \<or>
     (\<exists>req r. append_entries io req st = (r, st') \<and> req \<in> append_requests c)"

lemma quiet_appendI:
  "append_entries io req st = (r, st') \<Longrightarrow> req \<in> append_requests c \<Longrightarrow> quiet_step io c st st'"
  by (auto simp: quiet_step_def)

lemma quiet_leadI: "leads_on st st' \<Longrightarrow> quiet_step io c st st'"
  by (simp add: quiet_step_def)

lemma quiet_node_step: "quiet_step io c st st' \<Longrightarrow> node_step io c st st'"
  by (auto simp: quiet_step_def intro: idle append lead)

lemma append_event_node:
  assumes "exec io e c = Some c'" and "\<not> vote_event e"
  obtains a st where "node c' = (node c)(a := st)" and "quiet_step io c (node c a) st"
proof -
  have "\<exists>a st. node c' = (node c)(a := st) \<and> quiet_step io c (node c a) st"
  proof (cases e)
    case (StartAppend a texts)
    obtain r st where st: "send_append_begin io texts (node c a) = (r, st)" by fastforce
    from quiet_leadI [OF leads(1) [OF st]] StartAppend assms st show ?thesis
      by (auto simp: start_append_def split: sum.splits intro!: exI [of _ a] exI [of _ st])
  next
    case (BuildAppend i b)
    obtain r st where st: "send_append_build b (node c (owner (runs c ! i))) = (r, st)" by fastforce
    from quiet_leadI [OF leads(2) [OF st]] BuildAppend assms st show ?thesis
      by (auto simp: build_append_def Let_def split: if_splits sum.splits
          intro!: exI [of _ "owner (runs c ! i)"] exI [of _ st])
  next
    case (HandleAppend i b)
    with assms show ?thesis
      by (auto simp: handle_append_def split: option.splits append_task.splits prod.splits sum.splits
          intro!: exI [of _ b] quiet_appendI sent_request)
  next
    case (AppendTimeout i b)
    with assms have "node c' = (node c)(b := node c b)"
      by (auto simp: append_timeout_def split: option.splits append_task.splits)
    then show ?thesis unfolding quiet_step_def by blast
  next
    case (LateAppend i)
    from LateAppend assms obtain b req where i: "i < length (late_appends c)" "late_appends c ! i = (b, req)"
      and "node c' = (node c)(b := snd (append_entries io req (node c b)))"
      by (auto simp: late_append_def split: if_splits prod.splits)
    then show ?thesis using late_request [OF i]
      by (intro exI [of _ b] exI conjI quiet_appendI [of _ req _ "fst (append_entries io req (node c b))"]) auto
  next
    case (ReplyAppend i b)
    then obtain s where s: "task_at c i b = Some (Answered s)"
      using assms by (auto simp: reply_append_def split: option.splits append_task.splits)
    obtain r st where st: "send_append_reply b s (node c (owner (runs c ! i))) = (r, st)" by fastforce
    from quiet_leadI [OF leads(3) [OF st]] ReplyAppend assms s st show ?thesis
      by (auto simp: reply_append_def Let_def intro!: exI [of _ "owner (runs c ! i)"] exI [of _ st])
  next
    case (FinishAppend i)
    let ?a = "owner (runs c ! i)"
    let ?rs = "map (\<lambda>b. the (task_result (tasks (runs c ! i) b))) (servers (node c ?a))"
    obtain r st where st: "send_append_finish ?rs (node c ?a) = (r, st)" by fastforce
    from quiet_leadI [OF leads(4) [OF st]] FinishAppend assms st show ?thesis
      by (auto simp: finish_append_def Let_def split: if_splits intro!: exI [of _ ?a] exI [of _ st])
  qed (use assms in simp_all)
  then show thesis using that by blast
qed

lemma exec_node:
  assumes "exec io e c = Some c'"
  obtains a st where "node c' = (node c)(a := st)" and "node_step io c (node c a) st"
proof (cases "vote_event e")
  case False
  with append_event_node [OF assms] quiet_node_step that show thesis by metis
next
  case True
  have idle: "\<exists>a st. node c' = (node c)(a := st) \<and> node_step io c (node c a) st" if "node c' = node c"
    using that idle by (metis fun_upd_triv)
  have vote_ex: "\<exists>a st. node c' = (node c)(a := st) \<and> node_step io c (node c a) st"
    if "request_vote io req (node c b) = (q, st)" "node c' = (node c)(b := st)"
      "(b, req) \<in> set (late_votes c) \<or> (\<exists>a. election_request (node c a) b = Some req)" for b req q st
    using that(2) vote [OF that(1,3)] by blast
  have "\<exists>a st. node c' = (node c)(a := st) \<and> node_step io c (node c a) st"
  proof (cases e)
    case (StartElection a rx)
    with assms show ?thesis
      by (auto simp: start_election_def split: if_splits prod.splits sum.splits bool.splits
          intro!: exI [of _ a] run)
  next
    case (AskVote a b)
    show ?thesis
    proof (cases "election_request (node c a) b")
      case None
      with AskVote assms have "node c' = node c" by (auto simp: ask_vote_def split: if_splits)
      then show ?thesis by (rule idle)
    next
      case (Some req)
      obtain r c1 where v: "cast_vote io b req (note_asked req b c) = (r, c1)" by fastforce
      from cast_vote_node [OF v] obtain q st where
        "request_vote io req (node c b) = (q, st)" "node c1 = (node c)(b := st)" by auto
      moreover from AskVote assms Some v have "node c' = node c1"
        by (auto simp: ask_vote_def split: if_splits)
      ultimately show ?thesis using Some by (intro vote_ex) auto
    qed
  next
    case (VoteTimeout a b)
    with assms have "node c' = node c" by (auto simp: vote_timeout_def split: if_splits option.splits)
    then show ?thesis by (rule idle)
  next
    case (LateVote i)
    let ?c = "c\<lparr>late_votes := drop_nth i (late_votes c)\<rparr>"
    from LateVote assms obtain b req where i: "i < length (late_votes c)" "late_votes c ! i = (b, req)"
      and c': "c' = snd (cast_vote io b req ?c)"
      by (auto simp: late_vote_def split: if_splits prod.splits)
    from i have "(b, req) \<in> set (late_votes c)" by (metis nth_mem)
    moreover obtain q st where "request_vote io req (node c b) = (q, st)" "node c' = (node c)(b := st)"
      using cast_vote_node [of io b req ?c "fst (cast_vote io b req ?c)" c'] c' by auto
    ultimately show ?thesis by (intro vote_ex) auto
  next
    case (FinishElection a)
    with assms show ?thesis
      by (auto simp: finish_election_def Let_def split: if_splits option.splits prod.splits
          intro!: exI [of _ a] count)
  qed (use True in simp_all)
  then show thesis using that by blast
qed

section \<open>Terms and logs of reachable clusters\<close>

definition initial_entry :: Log where
  "initial_entry = \<lparr>log_text = ''init'', log_term = 0\<rparr>"

text \<open>The identity of the servers, and bounds on every term that is around after \<open>k\<close> events.\<close>

definition ids_ok :: "'a list \<Rightarrow> ('a, 'f) cluster \<Rightarrow> bool" where
  "ids_ok srv c \<longleftrightarrow> distinct srv \<and> (\<forall>a. me (node c a) = a \<and> servers (node c a) = srv)"

definition terms_le :: "nat \<Rightarrow> ('a, 'f) cluster \<Rightarrow> bool" where
  "terms_le k c \<longleftrightarrow> (\<forall>a. unat (cur_term (node c a)) \<le> k) \<and>
     (\<forall>req \<in> append_requests c. unat (ae_term req) \<le> k) \<and>
     (\<forall>(b, req) \<in> set (late_votes c). rv_term req \<le> cur_term (node c (candidate_id req)))"

definition log_ok :: "u64 \<Rightarrow> Log list \<Rightarrow> bool" where
  "log_ok t ls \<longleftrightarrow> ls \<noteq> [] \<and> hd ls = initial_entry \<and> (\<forall>e \<in> set ls. log_term e \<le> t)"

definition logs_ok :: "('a, 'f) cluster \<Rightarrow> bool" where
  "logs_ok c \<longleftrightarrow> (\<forall>a. log_ok (cur_term (node c a)) (the_logs (node c a))) \<and>
     (\<forall>req \<in> append_requests c. \<forall>e \<in> set (entries req). log_term e \<le> ae_term req)"

definition base_inv :: "'a list \<Rightarrow> nat \<Rightarrow> ('a, 'f) cluster \<Rightarrow> bool" where
  "base_inv srv k c \<longleftrightarrow> ids_ok srv c \<and> terms_le k c \<and> logs_ok c"

lemma set_drop_nth: "set (drop_nth i xs) \<subseteq> set xs"
  using set_take_subset [of i xs] set_drop_subset [of "Suc i" xs] by (auto simp: drop_nth_def)

lemma append_requests_simps [simp]:
  "append_requests (put_node a st c) = append_requests c"
  "append_requests (c\<lparr>election := el\<rparr>) = append_requests c"
  "append_requests (c\<lparr>ran := rn\<rparr>) = append_requests c"
  by (simp_all add: append_requests_def)

lemma append_requests_set_task:
  assumes "i < length (runs c)"
  shows "append_requests (set_task i b x c) \<subseteq> append_requests c \<union> {req. x = Sent req}"
proof
  fix req
  assume "req \<in> append_requests (set_task i b x c)"
  moreover have "req \<in> append_requests c \<union> {req. x = Sent req}"
    if "run \<in> set (runs (set_task i b x c))" "tasks run d = Sent req" for run d
  proof -
    let ?r = "(runs c ! i)\<lparr>tasks := (tasks (runs c ! i))(b := x)\<rparr>"
    from that(1) have "run \<in> set (runs c) \<or> run = ?r"
      using set_update_subset_insert [of "runs c" i ?r] by (auto simp: set_task_def)
    then show ?thesis
    proof
      assume "run \<in> set (runs c)"
      with that(2) show ?thesis by (auto simp: append_requests_def)
    next
      assume "run = ?r"
      with that(2) assms show ?thesis
        by (auto simp: append_requests_def split: if_splits intro!: bexI [of _ "runs c ! i"])
    qed
  qed
  ultimately show "req \<in> append_requests c \<union> {req. x = Sent req}"
    by (auto simp: append_requests_def)
qed

text \<open>The events of an election leave the sending side alone, and the other way round.\<close>

lemma cast_vote_frame:
  "runs (snd (cast_vote io b req c)) = runs c" "late_appends (snd (cast_vote io b req c)) = late_appends c"
  "late_votes (snd (cast_vote io b req c)) = late_votes c" "asked (snd (cast_vote io b req c)) = asked c"
  "election (snd (cast_vote io b req c)) = election c" "ran (snd (cast_vote io b req c)) = ran c"
  "won (snd (cast_vote io b req c)) = won c"
  by (simp_all add: cast_vote_def split: prod.split sum.split)

lemma cast_vote_run_frame:
  assumes "cast_vote io b req c = (r, c')"
  shows "runs c' = runs c \<and> late_appends c' = late_appends c \<and> late_votes c' = late_votes c \<and>
    asked c' = asked c \<and> election c' = election c \<and> ran c' = ran c \<and> won c' = won c"
  using assms cast_vote_frame [of io b req c] by simp

lemma vote_event_frame:
  assumes "exec io e c = Some c'" and "vote_event e"
  shows "runs c' = runs c \<and> late_appends c' = late_appends c"
proof (cases e)
  case (AskVote a b)
  with assms(1) show ?thesis
    by (auto simp: ask_vote_def split: if_splits option.splits prod.splits dest!: cast_vote_run_frame)
next
  case (LateVote i)
  with assms(1) show ?thesis
    by (auto simp: late_vote_def cast_vote_frame split: if_splits prod.splits)
qed (use assms in \<open>auto simp: start_election_def vote_timeout_def finish_election_def Let_def
      split: if_splits prod.splits sum.splits bool.splits option.splits\<close>)

lemma append_event_frame:
  assumes "exec io e c = Some c'" and "\<not> vote_event e"
  shows "election c' = election c \<and> late_votes c' = late_votes c \<and> granted c' = granted c \<and>
    asked c' = asked c \<and> ran c' = ran c \<and> won c' = won c"
  using assms
  by (cases e) (auto simp: start_append_def build_append_def handle_append_def append_timeout_def
      late_append_def reply_append_def finish_append_def Let_def
      split: if_splits prod.splits sum.splits option.splits append_task.splits)

text \<open>Every request in flight was built by a leader from its state.\<close>

lemma exec_append_requests:
  assumes "exec io e c = Some c'" and "req \<in> append_requests c'"
  shows "req \<in> append_requests c \<or> (\<exists>a b st. send_append_build b (node c a) = (Inr (Inr req), st))"
proof (cases "vote_event e")
  case True
  from vote_event_frame [OF assms(1) True] assms(2) show ?thesis by (simp add: append_requests_def)
next
  case False
  have st: "req \<in> append_requests c \<or> x = Sent req"
    if "c' = set_task i b x d" "i < length (runs c)" "append_requests d = append_requests c" "runs d = runs c" for i b x d
    using that assms(2) append_requests_set_task [of i d b x] by auto
  show ?thesis
  proof (cases e)
    case (StartAppend a texts)
    with assms show ?thesis
      by (auto simp: start_append_def append_requests_def split: prod.splits sum.splits)
  next
    case (BuildAppend i b)
    let ?a = "owner (runs c ! i)"
    from BuildAppend assms(1) have i: "i < length (runs c)"
      by (auto simp: build_append_def task_at_def split: if_splits)
    from BuildAppend assms(1) obtain x u where "c' = set_task i b x (put_node ?a u c)"
      and "\<And>req. x = Sent req \<Longrightarrow> send_append_build b (node c ?a) = (Inr (Inr req), u)"
      by (auto simp: build_append_def Let_def split: if_splits prod.splits sum.splits)
    with st i show ?thesis by (metis append_requests_simps(1) put_node_simps(4))
  next
    case (HandleAppend i b)
    with assms(1) obtain x u where "c' = set_task i b x (put_node b u c)" "i < length (runs c)" "\<And>r. x \<noteq> Sent r"
      by (auto simp: handle_append_def dest: task_at_Some
          split: prod.splits sum.splits option.splits append_task.splits)
    with st show ?thesis by (metis append_requests_simps(1) put_node_simps(4))
  next
    case (AppendTimeout i b)
    with assms(1) obtain r where r: "task_at c i b = Some (Sent r)" and
      c': "c' = set_task i b (Finished (Inl (Anyhow ''timeout''))) (c\<lparr>late_appends := late_appends c @ [(b, r)]\<rparr>)"
      by (auto simp: append_timeout_def split: option.splits append_task.splits)
    have "append_requests (c\<lparr>late_appends := late_appends c @ [(b, r)]\<rparr>) = append_requests c"
      using sent_request [OF r] by (auto simp: append_requests_def)
    with st [OF c'] task_at_Some(1) [OF r] show ?thesis by auto
  next
    case (LateAppend i)
    with assms show ?thesis using set_drop_nth [of i "late_appends c"]
      by (auto simp: late_append_def append_requests_def split: if_splits prod.splits)
  next
    case (ReplyAppend i b)
    with assms(1) obtain r u where "c' = set_task i b (Finished r) (put_node (owner (runs c ! i)) u c)"
      "i < length (runs c)"
      by (auto simp: reply_append_def Let_def dest: task_at_Some
          split: prod.splits option.splits append_task.splits)
    with st show ?thesis by (metis append_requests_simps(1) put_node_simps(4) append_task.distinct(10))
  next
    case (FinishAppend i)
    with assms(1) obtain r u where c': "c' = (put_node (owner (runs c ! i)) u c)
        \<lparr>runs := (runs c)[i := (runs c ! i)\<lparr>outcome := Some r\<rparr>]\<rparr>" and i: "i < length (runs c)"
      by (auto simp: finish_append_def Let_def split: prod.splits if_splits)
    have "\<exists>run \<in> set (runs c). tasks run = tasks run'" if "run' \<in> set ((runs c)[i := (runs c ! i)\<lparr>outcome := Some r\<rparr>])" for run'
      using that set_update_subset_insert [of "runs c" i "(runs c ! i)\<lparr>outcome := Some r\<rparr>"] nth_mem [OF i] by fastforce
    with c' assms(2) show ?thesis by (fastforce simp: append_requests_def)
  qed (use False in simp_all)
qed

lemma exec_late_votes:
  assumes "exec io e c = Some c'" and "(b, req) \<in> set (late_votes c')"
  shows "(b, req) \<in> set (late_votes c) \<or> (\<exists>a. election_request (node c a) b = Some req)"
proof (cases "vote_event e")
  case False
  from append_event_frame [OF assms(1) False] assms(2) show ?thesis by simp
next
  case True
  show ?thesis
  proof (cases e)
    case (AskVote a d)
    with assms show ?thesis
      by (auto simp: ask_vote_def split: if_splits option.splits prod.splits dest!: cast_vote_run_frame)
  next
    case (LateVote i)
    with assms set_drop_nth [of i "late_votes c"] show ?thesis
      by (auto simp: late_vote_def cast_vote_frame split: if_splits prod.splits)
  qed (use assms True in \<open>auto simp: start_election_def vote_timeout_def finish_election_def Let_def
      split: if_splits prod.splits sum.splits bool.splits option.splits\<close>)
qed

lemma build_request:
  assumes "send_append_build b st = (Inr (Inr req), st')"
  shows "ae_term req = cur_term st" and "set (entries req) \<subseteq> set (the_logs st)"
  using assms set_drop_subset [of _ "the_logs st"]
  by (auto simp: send_append_build_def of_opt_def Let_def upd_defs
      split: Role.splits if_splits option.splits dest: in_set_dropD)

lemma election_request_fields:
  assumes "election_request st b = Some req"
  shows "rv_term req = cur_term st" and "candidate_id req = me st" and "b \<noteq> me st"
  using assms by (auto simp: election_request_def split: if_splits)

text \<open>One server's step, with the terms bounded so that the counter does not wrap.\<close>

lemma node_step_effect:
  assumes "node_step io c st st'" and "terms_le k c" and "ids_ok srv c" and "Suc k < 2 ^ 64"
    and "unat (cur_term st) \<le> k"
  shows "me st' = me st" and "servers st' = servers st" and "cur_term st \<le> cur_term st'"
    and "unat (cur_term st') \<le> Suc k"
proof -
  have "me st' = me st \<and> servers st' = servers st \<and> cur_term st \<le> cur_term st' \<and> unat (cur_term st') \<le> Suc k"
    using assms(1)
  proof cases
    case idle
    with assms(5) show ?thesis by simp
  next
    case (append req r)
    with append_entries_evolves(1,2) [OF append(1)] assms(2,5) show ?thesis
      by (auto simp: evolves_def terms_le_def max_def le_Suc_eq)
  next
    case (vote req r b)
    have "unat (rv_term req) \<le> k"
      using vote(2)
    proof
      assume "(b, req) \<in> set (late_votes c)"
      with assms(2) have "rv_term req \<le> cur_term (node c (candidate_id req))"
        "unat (cur_term (node c (candidate_id req))) \<le> k"
        by (auto simp: terms_le_def)
      then show ?thesis by (simp add: word_le_nat_alt)
    next
      assume "\<exists>a. election_request (node c a) b = Some req"
      with assms(2) show ?thesis by (auto simp: terms_le_def election_request_fields)
    qed
    with request_vote_evolves(1,2) [OF vote(1)] assms(5) show ?thesis
      by (auto simp: evolves_def max_def le_Suc_eq)
  next
    case lead
    with assms(5) show ?thesis by (auto simp: leads_on_def evolves_def)
  next
    case (run rx r)
    with election_begin_run [OF run] unat_succ_bound [OF assms(5,4)] assms(5) show ?thesis
      by (cases "r = Inr False") auto
  next
    case (count rs r)
    with election_finish_run(1) [OF count] assms(5) show ?thesis by simp
  qed
  then show "me st' = me st" and "servers st' = servers st" and "cur_term st \<le> cur_term st'"
    and "unat (cur_term st') \<le> Suc k" by simp_all
qed

lemma log_ok_mono: "log_ok t ls \<Longrightarrow> t \<le> u \<Longrightarrow> log_ok u ls"
  by (auto simp: log_ok_def)

lemma log_ok_merge:
  assumes "log_ok t ls" and "t \<le> u" and "\<forall>e \<in> set (entries req). log_term e \<le> u"
    and "prev_log_index req < length ls"
  shows "log_ok u (ae_merge req ls)"
  using assms log_ok_mono [OF assms(1,2)]
  by (auto simp: log_ok_def ae_merge_def Let_def dest!: in_set_takeD in_set_dropD)

lemma log_ok_append: "log_ok t ls \<Longrightarrow> \<forall>e \<in> set es. log_term e \<le> t \<Longrightarrow> log_ok t (ls @ es)"
  by (auto simp: log_ok_def)

lemma node_step_logs:
  assumes "node_step io c st st'" and "logs_ok c" and "cur_term st \<le> cur_term st'"
    and "log_ok (cur_term st) (the_logs st)"
  shows "log_ok (cur_term st') (the_logs st')"
  using assms(1)
proof cases
  case (append req r)
  note ev = append_entries_evolves [OF append(1)]
  from append(2) assms(2) have "\<forall>e \<in> set (entries req). log_term e \<le> cur_term st'"
    unfolding logs_ok_def ev(2) by (meson max.coboundedI2)
  with ev(4) log_ok_merge [OF assms(4,3)] log_ok_mono [OF assms(4,3)] show ?thesis by auto
next
  case (vote req r b)
  with request_vote_evolves(4) [OF vote(1)] log_ok_mono [OF assms(4,3)] show ?thesis by simp
next
  case lead
  with assms(4) show ?thesis by (auto simp: leads_on_def intro!: log_ok_append)
next
  case (run rx r)
  with election_begin_run(1) [OF run] log_ok_mono [OF assms(4,3)] show ?thesis by simp
next
  case (count rs r)
  with election_finish_run(1) [OF count] log_ok_mono [OF assms(4,3)] show ?thesis by simp
qed (use assms(4) in simp)

lemma exec_terms_mono:
  assumes "exec io e c = Some c'" and "terms_le k c" and "ids_ok srv c" and "Suc k < 2 ^ 64"
  shows "cur_term (node c b) \<le> cur_term (node c' b)"
proof -
  obtain a st where n: "node c' = (node c)(a := st)" "node_step io c (node c a) st"
    using exec_node [OF assms(1)] .
  have "unat (cur_term (node c a)) \<le> k" using assms(2) by (simp add: terms_le_def)
  with node_step_effect(3) [OF n(2) assms(2-4)] n(1) show ?thesis by simp
qed

lemma base_inv_step:
  assumes "base_inv srv k c" and "Suc k < 2 ^ 64" and "cluster_step io c c'"
  shows "base_inv srv (Suc k) c'"
proof -
  from assms(3) obtain e where e: "exec io e c = Some c'" by (auto simp: cluster_step_def)
  from assms(1) have inv: "ids_ok srv c" "terms_le k c" "logs_ok c" by (simp_all add: base_inv_def)
  obtain a st where n: "node c' = (node c)(a := st)" "node_step io c (node c a) st"
    using exec_node [OF e] .
  have k: "unat (cur_term (node c b)) \<le> k" for b using inv(2) by (simp add: terms_le_def)
  note eff = node_step_effect [OF n(2) inv(2,1) assms(2) k]
  note mono = exec_terms_mono [OF e inv(2,1) assms(2)]
  have "ids_ok srv c'" using inv(1) n(1) eff(1,2) by (auto simp: ids_ok_def)
  moreover have "terms_le (Suc k) c'"
    unfolding terms_le_def
  proof (intro conjI allI ballI)
    show "unat (cur_term (node c' b)) \<le> Suc k" for b using n(1) eff(4) k [of b] by (simp add: le_SucI)
    show "unat (ae_term req) \<le> Suc k" if "req \<in> append_requests c'" for req
      using exec_append_requests [OF e that] inv(2) k build_request(1) by (metis le_SucI terms_le_def)
    show "case p of (b, req) \<Rightarrow> rv_term req \<le> cur_term (node c' (candidate_id req))"
      if "p \<in> set (late_votes c')" for p
    proof -
      obtain b req where p: "p = (b, req)" by fastforce
      have "rv_term req \<le> cur_term (node c (candidate_id req))"
        using exec_late_votes [OF e that [unfolded p]] inv(1,2)
        by (auto simp: terms_le_def ids_ok_def election_request_fields)
      with mono p show ?thesis by (auto intro: order_trans)
    qed
  qed
  moreover have "logs_ok c'"
    unfolding logs_ok_def
  proof (intro conjI allI ballI)
    show "log_ok (cur_term (node c' b)) (the_logs (node c' b))" for b
      using n(1) inv(3) node_step_logs [OF n(2) inv(3) eff(3)] by (simp add: logs_ok_def)
    show "log_term x \<le> ae_term req" if "req \<in> append_requests c'" "x \<in> set (entries req)" for req x
      using exec_append_requests [OF e that(1)]
    proof
      assume "req \<in> append_requests c"
      with inv(3) that(2) show ?thesis by (simp add: logs_ok_def)
    next
      assume "\<exists>a b st. send_append_build b (node c a) = (Inr (Inr req), st)"
      then obtain d b u where "send_append_build b (node c d) = (Inr (Inr req), u)" by blast
      from build_request [OF this] inv(3) that(2) show ?thesis by (auto simp: logs_ok_def log_ok_def)
    qed
  qed
  ultimately show ?thesis by (simp add: base_inv_def)
qed

lemma base_inv_init: "fresh_cluster srv c \<Longrightarrow> base_inv srv 0 c"
  by (auto simp: fresh_cluster_def base_inv_def ids_ok_def terms_le_def logs_ok_def log_ok_def
      append_requests_def init_persistent_def initial_entry_def)

interpretation base: counted_system "fresh_cluster srv" "cluster_step io" "base_inv srv" "2 ^ 64"
  for srv :: "'a list" and io :: "('a, 'f) raft_io"
  by unfold_locales (rule base_inv_init, assumption, rule base_inv_step)

section \<open>A sample cluster\<close>

definition sample_cluster :: "(nat, string \<times> nat) cluster" where
  "sample_cluster = \<lparr>node = sample_node Follower 0 None [initial_entry] 0, election = Map.empty, runs = [],
     late_appends = [], late_votes = [], granted = {}, asked = {}, ran = {}, won = {}\<rparr>"

lemma sample_fresh: "fresh_cluster [0, 1, 2] sample_cluster"
  by (simp add: fresh_cluster_def sample_cluster_def sample_node_def init_persistent_def initial_entry_def)

lemma sample_reach: "reach io [0, 1, 2] 0 sample_cluster"
  unfolding reach_def by (rule reaches_init) (rule sample_fresh)

lemmas cluster_eval = event_defs sample_cluster_def put_node_def cast_vote_def set_result_def note_asked_def
  vote_open_def set_task_def task_at_def drop_nth_def counted_def task_result_def Let_def

text \<open>Server 0 wins term 1 with the vote of server 1.\<close>

abbreviation first_term :: "nat event list" where
  "first_term \<equiv> [StartElection 0 False, AskVote 0 0, AskVote 0 1, VoteTimeout 0 2, FinishElection 0]"

lemma first_term_run:
  "exec_all blank_io first_term sample_cluster \<noteq> None"
  "is_leader (role_of (node (the (exec_all blank_io first_term sample_cluster)) 0))"
  "cur_term (node (the (exec_all blank_io first_term sample_cluster)) 0) = 1"
  by (simp_all add: cluster_eval raft_eval prog_simps init_persistent_def initial_entry_def)

lemma first_term_reach: "reach blank_io [0, 1, 2] 5 (the (exec_all blank_io first_term sample_cluster))"
proof -
  obtain c where c: "exec_all blank_io first_term sample_cluster = Some c"
    using first_term_run(1) by blast
  from exec_all_reach [OF sample_reach c] have "reach blank_io [0, 1, 2] 5 c" by (simp add: eval_nat_numeral)
  with c show ?thesis by (simp only: option.sel)
qed

section \<open>Properties of the cluster\<close>

text \<open>
  Property C11. However the events of the servers interleave, after fewer than \<open>2^64\<close> of them every
  log still starts with the entry written at creation, no entry is newer than the server's term, and
  no term exceeds the number of events (so the 64-bit counter has not wrapped).
\<close>

theorem cluster_logs_well_formed:
  assumes "reach io srv k c" and "k < 2 ^ 64"
  shows "the_logs (node c a) \<noteq> [] \<and> hd (the_logs (node c a)) = initial_entry \<and>
    (\<forall>e \<in> set (the_logs (node c a)). log_term e \<le> cur_term (node c a)) \<and>
    unat (cur_term (node c a)) \<le> k"
  using base.inv_reaches [OF assms(1) [unfolded reach_def] assms(2)]
  by (simp add: base_inv_def logs_ok_def log_ok_def terms_le_def)

theorem cluster_logs_well_formed_witness:
  "let c = the (exec_all blank_io first_term sample_cluster)
   in hd (the_logs (node c 0)) = initial_entry \<and> unat (cur_term (node c 0)) \<le> 5"
  unfolding Let_def
  using cluster_logs_well_formed [OF first_term_reach, of 0] by simp

text \<open>
  Property C13. Terms never go backwards: an event leaves the term of every server where it was or
  raises it, and a server whose term was raised is a follower or a candidate.
\<close>

theorem cluster_terms_monotone:
  assumes "reach io srv k c" and "Suc k < 2 ^ 64" and "exec io e c = Some c'"
  shows "cur_term (node c a) \<le> cur_term (node c' a) \<and>
    (cur_term (node c a) < cur_term (node c' a) \<longrightarrow> role_of (node c' a) \<in> {Follower, Candidate})"
proof -
  have "k < 2 ^ 64" using assms(2) by simp
  with base.inv_reaches [OF assms(1) [unfolded reach_def]] have inv: "terms_le k c" "ids_ok srv c"
    by (auto simp: base_inv_def)
  have mono: "cur_term (node c a) \<le> cur_term (node c' a)"
    using exec_terms_mono [OF assms(3) inv assms(2)] .
  obtain b st where n: "node c' = (node c)(b := st)" "node_step io c (node c b) st"
    using exec_node [OF assms(3)] .
  from n(2) have "role_of st \<in> {Follower, Candidate}" if "cur_term (node c b) < cur_term st"
  proof cases
    case (run rx r)
    with that election_begin_run(2,3) [OF run] show ?thesis by auto
  qed (use that append_entries_evolves(1) request_vote_evolves(1) election_finish_run(1)
      in \<open>fastforce simp: evolves_def leads_on_def\<close>)+
  with n(1) mono show ?thesis by (cases "a = b") auto
qed

theorem cluster_terms_monotone_witness:
  "let c = the (exec_all blank_io first_term sample_cluster); c' = the (exec blank_io (StartElection 2 False) c)
   in cur_term (node c 2) \<le> cur_term (node c' 2) \<and> cur_term (node c' 2) = 1"
proof -
  let ?c = "the (exec_all blank_io first_term sample_cluster)"
  let ?c' = "the (exec blank_io (StartElection 2 False) ?c)"
  have run: "exec blank_io (StartElection 2 False) ?c = Some ?c'" and t: "cur_term (node ?c' 2) = 1"
    by (simp_all add: cluster_eval raft_eval prog_simps init_persistent_def initial_entry_def)
  from cluster_terms_monotone [OF first_term_reach _ run, of 2] t show ?thesis by (simp add: Let_def)
qed

text \<open>
  Property C12. Leader append-only: as long as a server leads, before and after an event, the log it
  had is a prefix of the log it has, and what was added carries its own term.
\<close>

theorem leader_append_only:
  assumes "exec io e c = Some c'" and "is_leader (role_of (node c a))" and "is_leader (role_of (node c' a))"
  shows "\<exists>es. the_logs (node c' a) = the_logs (node c a) @ es \<and> (\<forall>x \<in> set es. log_term x = cur_term (node c a))"
proof -
  obtain b st where n: "node c' = (node c)(b := st)" "node_step io c (node c b) st"
    using exec_node [OF assms(1)] .
  from n(2) have "is_leader (role_of st) \<Longrightarrow>
    \<exists>es. the_logs st = the_logs (node c b) @ es \<and> (\<forall>x \<in> set es. log_term x = cur_term (node c b))"
  proof cases
    case (append req r)
    then show "is_leader (role_of st) \<Longrightarrow> ?thesis" using append_entries_evolves(5) [OF append(1)] by simp
  next
    case (vote req r d)
    then show "is_leader (role_of st) \<Longrightarrow> ?thesis" using request_vote_evolves(4) [OF vote(1)] by simp
  qed (auto simp: leads_on_def dest!: election_begin_run(1) election_finish_run(1))
  with n(1) assms(3) show ?thesis by (cases "a = b") auto
qed

theorem leader_append_only_witness:
  "let c = the (exec_all blank_io first_term sample_cluster); c' = the (exec blank_io (StartAppend 0 [''x'']) c)
   in the_logs (node c' 0) = the_logs (node c 0) @ [entry ''x'' 1] \<and>
      (\<exists>es. the_logs (node c' 0) = the_logs (node c 0) @ es \<and> (\<forall>e \<in> set es. log_term e = cur_term (node c 0)))"
proof -
  let ?c = "the (exec_all blank_io first_term sample_cluster)"
  let ?c' = "the (exec blank_io (StartAppend 0 [''x'']) ?c)"
  have run: "exec blank_io (StartAppend 0 [''x'']) ?c = Some ?c'" and l: "is_leader (role_of (node ?c' 0))"
    and t: "the_logs (node ?c' 0) = the_logs (node ?c 0) @ [entry ''x'' 1]"
    by (simp_all add: cluster_eval raft_eval prog_simps init_persistent_def initial_entry_def)
  from leader_append_only [OF run first_term_run(2) l] t show ?thesis unfolding Let_def by blast
qed

end
