(* ===== verification/Raft_Elections.thy ===== *)
theory Raft_Elections
  imports Raft_Cluster
begin

text \<open>
  Who may win a term. The history fields of the cluster are tied to the servers' states by an
  invariant; from it: a server that did not itself run in a term gives its vote in that term at most
  once, and two winners of one term share an elector that ran in it. That this does happen (a server
  neither votes for itself nor remembers having run) is shown by a run with two leaders of term 1.
\<close>

section \<open>The invariant\<close>

text \<open>Votes are asked for first, are not of the future, and bind a server that did not run.\<close>

definition votes_ok :: "('a, 'f) cluster \<Rightarrow> bool" where
  "votes_ok c \<longleftrightarrow>
     (\<forall>n t d. (n, t, d) \<in> granted c \<longrightarrow> t \<le> cur_term (node c n) \<and> (d, n, t) \<in> asked c) \<and>
     (\<forall>n d. (n, cur_term (node c n), d) \<in> granted c \<longrightarrow> (n, cur_term (node c n)) \<in> ran c \<or>
        voted_for (pers (node c n)) = Some d) \<and>
     (\<forall>n t d d'. (n, t, d) \<in> granted c \<longrightarrow> (n, t, d') \<in> granted c \<longrightarrow> d = d' \<or> (n, t) \<in> ran c)"

text \<open>Each vote is asked for at most once, and a request under way has not been granted yet.\<close>

definition vote_key :: "'a \<times> 'a RequestVoteRequest \<Rightarrow> 'a \<times> 'a \<times> u64" where
  "vote_key p = (case p of (b, req) \<Rightarrow> (candidate_id req, b, rv_term req))"

definition asks_ok :: "('a, 'f) cluster \<Rightarrow> bool" where
  "asks_ok c \<longleftrightarrow>
     (\<forall>d n t. (d, n, t) \<in> asked c \<longrightarrow> t \<le> cur_term (node c d)) \<and>
     distinct (map vote_key (late_votes c)) \<and>
     (\<forall>d n t. (d, n, t) \<in> vote_key ` set (late_votes c) \<longrightarrow> (d, n, t) \<in> asked c \<and> (n, t, d) \<notin> granted c) \<and>
     (\<forall>a t0 res b t. election c a = Some (t0, res) \<longrightarrow> res b = None \<longrightarrow> (a, b, t) \<in> asked c \<longrightarrow> t < t0)"

text \<open>A candidate is in the term of its election, and what it counted was granted in that term.\<close>

definition elections_ok :: "('a, 'f) cluster \<Rightarrow> bool" where
  "elections_ok c \<longleftrightarrow> (\<forall>a t0 res. election c a = Some (t0, res) \<longrightarrow>
     t0 \<le> cur_term (node c a) \<and> \<not> is_leader (role_of (node c a)) \<and> (a, t0) \<in> ran c \<and>
     (is_candidate (role_of (node c a)) \<longrightarrow> cur_term (node c a) = t0 \<and>
        (\<forall>b. res b = Some (Inr True) \<longrightarrow> b = a \<or> (b, t0, a) \<in> granted c)))"

definition wins_ok :: "'a list \<Rightarrow> ('a, 'f) cluster \<Rightarrow> bool" where
  "wins_ok srv c \<longleftrightarrow> (\<forall>a t V. (a, t, V) \<in> won c \<longrightarrow> V \<subseteq> set srv \<and> length srv < card V * 2 \<and> (a, t) \<in> ran c \<and>
     (\<forall>v \<in> V. v = a \<or> (v, t, a) \<in> granted c))"

definition vote_inv :: "'a list \<Rightarrow> nat \<Rightarrow> ('a, 'f) cluster \<Rightarrow> bool" where
  "vote_inv srv k c \<longleftrightarrow> base_inv srv k c \<and> votes_ok c \<and> asks_ok c \<and> elections_ok c \<and> wins_ok srv c"

lemma votes_okD:
  assumes "votes_ok c"
  shows "(n, t, d) \<in> granted c \<Longrightarrow> t \<le> cur_term (node c n)"
    and "(n, t, d) \<in> granted c \<Longrightarrow> (d, n, t) \<in> asked c"
    and "(n, t, d) \<in> granted c \<Longrightarrow> t = cur_term (node c n) \<Longrightarrow> (n, t) \<notin> ran c \<Longrightarrow>
      voted_for (pers (node c n)) = Some d"
    and "(n, t, d) \<in> granted c \<Longrightarrow> (n, t, d') \<in> granted c \<Longrightarrow> d \<noteq> d' \<Longrightarrow> (n, t) \<in> ran c"
  using assms unfolding votes_ok_def by blast+

lemma asks_okD:
  assumes "asks_ok c"
  shows "(d, n, t) \<in> asked c \<Longrightarrow> t \<le> cur_term (node c d)"
    and "distinct (map vote_key (late_votes c))"
    and "(d, n, t) \<in> vote_key ` set (late_votes c) \<Longrightarrow> (d, n, t) \<in> asked c \<and> (n, t, d) \<notin> granted c"
    and "election c a = Some (t0, res) \<Longrightarrow> res b = None \<Longrightarrow> (a, b, t) \<in> asked c \<Longrightarrow> t < t0"
proof -
  note ok = assms [unfolded asks_ok_def]
  show "(d, n, t) \<in> asked c \<Longrightarrow> t \<le> cur_term (node c d)"
    using ok [THEN conjunct1] by blast
  show "distinct (map vote_key (late_votes c))"
    using ok [THEN conjunct2, THEN conjunct1] .
  show "(d, n, t) \<in> vote_key ` set (late_votes c) \<Longrightarrow> (d, n, t) \<in> asked c \<and> (n, t, d) \<notin> granted c"
    using ok [THEN conjunct2, THEN conjunct2, THEN conjunct1, rule_format, of d n t] .
  show "election c a = Some (t0, res) \<Longrightarrow> res b = None \<Longrightarrow> (a, b, t) \<in> asked c \<Longrightarrow> t < t0"
    using ok [THEN conjunct2, THEN conjunct2, THEN conjunct2, rule_format, of a t0 res b t] .
qed

lemma elections_okD:
  assumes "elections_ok c" and "election c a = Some (t0, res)"
  shows "t0 \<le> cur_term (node c a)" and "\<not> is_leader (role_of (node c a))" and "(a, t0) \<in> ran c"
    and "is_candidate (role_of (node c a)) \<Longrightarrow> cur_term (node c a) = t0"
    and "is_candidate (role_of (node c a)) \<Longrightarrow> res b = Some (Inr True) \<Longrightarrow> b = a \<or> (b, t0, a) \<in> granted c"
  using assms(1) [unfolded elections_ok_def, rule_format, OF assms(2)] by (simp_all add: imp_conjL del: role_tests)

lemma wins_okD:
  assumes "wins_ok srv c" and "(a, t, V) \<in> won c"
  shows "V \<subseteq> set srv" and "length srv < card V * 2" and "(a, t) \<in> ran c"
    and "v \<in> V \<Longrightarrow> v = a \<or> (v, t, a) \<in> granted c"
  using assms unfolding wins_ok_def by blast+

section \<open>Events that do not concern votes\<close>

lemma evolves_role:
  assumes "evolves st st'"
  shows "\<not> is_leader (role_of st) \<Longrightarrow> \<not> is_leader (role_of st')"
    and "is_candidate (role_of st') \<Longrightarrow> is_candidate (role_of st) \<and> cur_term st' = cur_term st"
    and "cur_term st \<le> cur_term st'"
  using assms by (auto simp: evolves_def same_kind_def order.order_iff_strict)

lemma quiet_evolves:
  assumes "quiet_step io c st st'"
  shows "evolves st st'" and "cur_term st' = cur_term st \<Longrightarrow> voted_for (pers st') = voted_for (pers st)"
  using assms append_entries_evolves(1,3) by (auto simp: quiet_step_def leads_on_def)

text \<open>The parts of the invariant when one server evolves and the history stays or grows.\<close>

lemma votes_ok_quiet:
  assumes "votes_ok c" and "node c' = (node c)(a := st)" and "cur_term (node c a) \<le> cur_term st"
    and "cur_term st = cur_term (node c a) \<Longrightarrow> (a, cur_term st) \<in> ran c' \<or>
      voted_for (pers st) = voted_for (pers (node c a))"
    and "granted c' = granted c" and "asked c \<subseteq> asked c'" and "ran c \<subseteq> ran c'"
  shows "votes_ok c'"
  unfolding votes_ok_def
proof (intro conjI allI impI)
  fix n t d d'
  assume "(n, t, d) \<in> granted c'"
  then have g: "(n, t, d) \<in> granted c" using assms(5) by simp
  from votes_okD(1) [OF assms(1) g] show "t \<le> cur_term (node c' n)"
    using assms(2,3) by (cases "n = a") auto
  show "(d, n, t) \<in> asked c'" using votes_okD(2) [OF assms(1) g] assms(6) by blast
  assume "(n, t, d') \<in> granted c'"
  then show "d = d' \<or> (n, t) \<in> ran c'" using votes_okD(4) [OF assms(1) g] assms(5,7) by blast
next
  fix n d
  assume "(n, cur_term (node c' n), d) \<in> granted c'"
  then have g: "(n, cur_term (node c' n), d) \<in> granted c" using assms(5) by simp
  note D = votes_okD(1,3) [OF assms(1) g]
  show "(n, cur_term (node c' n)) \<in> ran c' \<or> voted_for (pers (node c' n)) = Some d"
  proof (cases "n = a")
    case False
    with D(2) assms(2,7) show ?thesis by auto
  next
    case True
    with D(1) assms(2,3) have "cur_term st = cur_term (node c a)" by (auto intro: order.antisym)
    with True D(2) assms(2,4,7) show ?thesis by (cases "(a, cur_term st) \<in> ran c") auto
  qed
qed

lemma asks_ok_node:
  assumes "asks_ok c" and "node c' = (node c)(a := st)" and "cur_term (node c a) \<le> cur_term st"
    and "late_votes c' = late_votes c" and "asked c' = asked c" and "granted c' = granted c"
    and "election c' = election c \<or> election c' = (election c)(a := None)"
  shows "asks_ok c'"
  unfolding asks_ok_def
proof (intro conjI allI impI)
  fix d n t
  assume "(d, n, t) \<in> asked c'"
  then show "t \<le> cur_term (node c' d)"
    using asks_okD(1) [OF assms(1), of d n t] assms(2,3,5) by (cases "d = a") auto
next
  fix x t0 res b t
  assume "election c' x = Some (t0, res)" "res b = None" "(x, b, t) \<in> asked c'"
  then show "t < t0" using asks_okD(4) [OF assms(1), of x t0 res b t] assms(5,7)
    by (auto split: if_splits)
qed (use asks_okD(2,3) [OF assms(1)] assms(4-6) in simp_all)

lemma elections_ok_node:
  assumes "elections_ok c" and "node c' = (node c)(a := st)" and "evolves (node c a) st"
    and "granted c \<subseteq> granted c'" and "ran c \<subseteq> ran c'" and "election c' = election c"
  shows "elections_ok c'"
  unfolding elections_ok_def
proof (intro allI impI)
  fix x t0 res
  assume "election c' x = Some (t0, res)"
  then have "election c x = Some (t0, res)" using assms(6) by simp
  note ok = elections_okD [OF assms(1) this]
  have ev: "evolves (node c x) (node c' x)" using assms(2,3) by simp
  have "t0 \<le> cur_term (node c' x)" using evolves_role(3) [OF ev] ok(1) by simp
  moreover have "\<not> is_leader (role_of (node c' x))" using evolves_role(1) [OF ev ok(2)] .
  moreover have "cur_term (node c' x) = t0" if "is_candidate (role_of (node c' x))"
    using evolves_role(2) [OF ev that] ok(4) by simp
  moreover have "b = x \<or> (b, t0, x) \<in> granted c'"
    if "is_candidate (role_of (node c' x))" "res b = Some (Inr True)" for b
    using evolves_role(2) [OF ev that(1)] ok(5) [OF _ that(2)] assms(4) by blast
  ultimately show "t0 \<le> cur_term (node c' x) \<and> \<not> is_leader (role_of (node c' x)) \<and> (x, t0) \<in> ran c' \<and>
     (is_candidate (role_of (node c' x)) \<longrightarrow> cur_term (node c' x) = t0 \<and>
        (\<forall>b. res b = Some (Inr True) \<longrightarrow> b = x \<or> (b, t0, x) \<in> granted c'))"
    using ok(3) assms(5) by blast
qed

lemma wins_ok_mono:
  assumes "wins_ok srv c" and "granted c \<subseteq> granted c'" and "ran c \<subseteq> ran c'" and "won c' = won c"
  shows "wins_ok srv c'"
  unfolding wins_ok_def
proof (intro allI impI)
  fix a t V
  assume "(a, t, V) \<in> won c'"
  then have "(a, t, V) \<in> won c" using assms(4) by simp
  from wins_okD [OF assms(1) this] assms(2,3)
  show "V \<subseteq> set srv \<and> length srv < card V * 2 \<and> (a, t) \<in> ran c' \<and> (\<forall>v \<in> V. v = a \<or> (v, t, a) \<in> granted c')"
    by blast
qed

lemma append_event_votes:
  assumes "exec io e c = Some c'" and "\<not> vote_event e"
    and "votes_ok c" and "asks_ok c" and "elections_ok c" and "wins_ok srv c"
  shows "votes_ok c' \<and> asks_ok c' \<and> elections_ok c' \<and> wins_ok srv c'"
proof -
  obtain a st where n: "node c' = (node c)(a := st)" "quiet_step io c (node c a) st"
    using append_event_node [OF assms(1,2)] .
  note fr = append_event_frame [OF assms(1,2)]
  note q = quiet_evolves [OF n(2)] evolves_role(3) [OF quiet_evolves(1) [OF n(2)]]
  have "votes_ok c'" by (rule votes_ok_quiet [OF assms(3) n(1)]) (use fr q in auto)
  moreover have "asks_ok c'" by (rule asks_ok_node [OF assms(4) n(1)]) (use fr q in auto)
  moreover have "elections_ok c'" by (rule elections_ok_node [OF assms(5) n(1)]) (use fr q in auto)
  moreover have "wins_ok srv c'" by (rule wins_ok_mono [OF assms(6)]) (use fr in auto)
  ultimately show ?thesis by blast
qed

section \<open>Casting a vote\<close>

lemma cast_vote_run:
  assumes "cast_vote io b req c = (r, c')"
  shows "node c' = (node c)(b := node c' b)" and "evolves (node c b) (node c' b)"
    and "granted c' = (if r = Inr True then insert (b, rv_term req, candidate_id req) (granted c) else granted c)"
    and "cur_term (node c' b) = cur_term (node c b) \<Longrightarrow> voted_for (pers (node c b)) = Some d \<Longrightarrow>
      d \<noteq> candidate_id req \<or> cur_term (node c b) \<noteq> rv_term req \<Longrightarrow> voted_for (pers (node c' b)) = Some d"
    and "r = Inr True \<Longrightarrow> cur_term (node c' b) = rv_term req \<and>
      voted_for (pers (node c' b)) = Some (candidate_id req) \<and>
      (cur_term (node c b) = rv_term req \<longrightarrow> voted_for (pers (node c b)) \<in> {None, Some (candidate_id req)})"
proof -
  obtain q st where v: "request_vote io req (node c b) = (q, st)" by fastforce
  note ev = request_vote_evolves [OF v]
  from assms v have n: "node c' = (node c)(b := st)"
    and g: "granted c' = (if r = Inr True then insert (b, rv_term req, candidate_id req) (granted c) else granted c)"
    by (auto simp: cast_vote_def split: sum.splits if_splits)
  from n show "node c' = (node c)(b := node c' b)" by simp
  from n ev(1) show "evolves (node c b) (node c' b)" by simp
  show "granted c' = (if r = Inr True then insert (b, rv_term req, candidate_id req) (granted c) else granted c)"
    by (rule g)
  have stale: "st = node c b" if "rv_term req < cur_term (node c b)"
    using v that by (simp add: request_vote_def)
  show "cur_term (node c' b) = cur_term (node c b) \<Longrightarrow> voted_for (pers (node c b)) = Some d \<Longrightarrow>
      d \<noteq> candidate_id req \<or> cur_term (node c b) \<noteq> rv_term req \<Longrightarrow> voted_for (pers (node c' b)) = Some d"
    using n ev(2) ev(3) [of d] stale by (cases "rv_term req < cur_term (node c b)") (auto simp: max_def split: if_splits)
  show "r = Inr True \<Longrightarrow> cur_term (node c' b) = rv_term req \<and>
      voted_for (pers (node c' b)) = Some (candidate_id req) \<and>
      (cur_term (node c b) = rv_term req \<longrightarrow> voted_for (pers (node c b)) \<in> {None, Some (candidate_id req)})"
    using assms v n ev(5) by (auto simp: cast_vote_def split: sum.splits)
qed

lemma cast_votes_ok:
  assumes "votes_ok c" and "cast_vote io b req c = (r, c')"
    and "(candidate_id req, b, rv_term req) \<in> asked c" and "(b, rv_term req, candidate_id req) \<notin> granted c"
  shows "votes_ok c'"
proof -
  note n = cast_vote_run(1) [OF assms(2)] and ev = cast_vote_run(2) [OF assms(2)]
    and g = cast_vote_run(3) [OF assms(2)] and keep = cast_vote_run(4) [OF assms(2)]
    and new = cast_vote_run(5) [OF assms(2)]
  have fr: "asked c' = asked c" "ran c' = ran c" using cast_vote_run_frame [OF assms(2)] by simp_all
  have up: "cur_term (node c x) \<le> cur_term (node c' x)" for x
    using evolves_role(3) [OF ev] by (cases "x = b", simp) (subst n, simp)
  have once: "(b, rv_term req) \<in> ran c"
    if "(b, rv_term req, d) \<in> granted c" "r = Inr True" for d
  proof (rule ccontr)
    assume no: "(b, rv_term req) \<notin> ran c"
    have "rv_term req = cur_term (node c b)"
      using votes_okD(1) [OF assms(1) that(1)] new [OF that(2)] evolves_role(3) [OF ev] by auto
    with votes_okD(3) [OF assms(1) that(1) _ no] new [OF that(2)] that(1) assms(4) show False by auto
  qed
  show ?thesis
    unfolding votes_ok_def
  proof (intro conjI allI impI)
    fix n' t d d'
    assume g1: "(n', t, d) \<in> granted c'"
    show "t \<le> cur_term (node c' n')"
    proof (cases "(n', t, d) \<in> granted c")
      case True
      from votes_okD(1) [OF assms(1) True] up [of n'] show ?thesis by simp
    next
      case False
      with g1 g new show ?thesis by (auto split: if_splits)
    qed
    show "(d, n', t) \<in> asked c'"
      using g1 g fr assms(3) votes_okD(2) [OF assms(1)] by (auto split: if_splits)
    assume g2: "(n', t, d') \<in> granted c'"
    show "d = d' \<or> (n', t) \<in> ran c'"
      using g1 g2 g fr once votes_okD(4) [OF assms(1), of n' t d d']
      by (cases "d = d'") (auto split: if_splits)
  next
    fix n' d
    assume g1: "(n', cur_term (node c' n'), d) \<in> granted c'"
    show "(n', cur_term (node c' n')) \<in> ran c' \<or> voted_for (pers (node c' n')) = Some d"
    proof (cases "(n', cur_term (node c' n'), d) \<in> granted c")
      case False
      with g1 g new show ?thesis by (auto split: if_splits)
    next
      case True
      note D = votes_okD(1,3) [OF assms(1) True]
      have same: "cur_term (node c' n') = cur_term (node c n')" using D(1) up [of n'] by simp
      show ?thesis
      proof (cases "n' = b")
        case False
        then have "node c' n' = node c n'" by (subst n) simp
        with D(2) fr show ?thesis by auto
      next
        case b: True
        then have "d \<noteq> candidate_id req \<or> cur_term (node c b) \<noteq> rv_term req"
          using True assms(4) same by auto
        with b D(2) same fr keep [of d] show ?thesis by auto
      qed
    qed
  qed
qed

section \<open>The events of an election\<close>

text \<open>A vote that is asked for is new: the candidate is in or past the term of its election.\<close>

lemma ask_is_new:
  assumes "asks_ok c" and "elections_ok c" and "vote_open c a b"
  shows "(a, b, cur_term (node c a)) \<notin> asked c"
proof
  assume old: "(a, b, cur_term (node c a)) \<in> asked c"
  from assms(3) obtain t0 res where e: "election c a = Some (t0, res)" "res b = None"
    by (auto simp: vote_open_def split: option.splits)
  from asks_okD(4) [OF assms(1) e old] elections_okD(1) [OF assms(2) e(1)] show False by simp
qed

lemma election_set_result:
  assumes "election (set_result a b r c) x = Some (t0, res)"
  obtains "x \<noteq> a" and "election c x = Some (t0, res)"
  | res' where "x = a" and "election c x = Some (t0, res')" and "res = res'(b \<mapsto> r)"
  using assms by (cases "x = a") (auto simp: set_result_def split: option.splits if_splits)

lemma set_result_frame [simp]:
  "granted (set_result a b r c) = granted c" "asked (set_result a b r c) = asked c"
  "ran (set_result a b r c) = ran c" "won (set_result a b r c) = won c"
  by (auto simp: set_result_def split: option.splits)

lemma votes_ok_frame:
  "votes_ok c \<Longrightarrow> node c' = node c \<Longrightarrow> granted c' = granted c \<Longrightarrow> asked c \<subseteq> asked c' \<Longrightarrow> ran c' = ran c \<Longrightarrow> votes_ok c'"
  by (rule votes_ok_quiet [of c c' undefined "node c undefined"]) auto

text \<open>The answer, the timeout and the candidate's own vote all close one task.\<close>

lemma elections_ok_result:
  assumes "elections_ok c" and "r = Inr True \<Longrightarrow> b = a \<or> (is_candidate (role_of (node c a)) \<longrightarrow> (b, cur_term (node c a), a) \<in> granted c)"
  shows "elections_ok (set_result a b r c)"
  unfolding elections_ok_def
proof (intro allI impI)
  fix x t0 res
  assume "election (set_result a b r c) x = Some (t0, res)"
  then show "t0 \<le> cur_term (node (set_result a b r c) x) \<and> \<not> is_leader (role_of (node (set_result a b r c) x)) \<and>
     (x, t0) \<in> ran (set_result a b r c) \<and>
     (is_candidate (role_of (node (set_result a b r c) x)) \<longrightarrow> cur_term (node (set_result a b r c) x) = t0 \<and>
        (\<forall>d. res d = Some (Inr True) \<longrightarrow> d = x \<or> (d, t0, x) \<in> granted (set_result a b r c)))"
  proof (cases rule: election_set_result)
    case 1
    with assms(1) show ?thesis unfolding elections_ok_def by simp
  next
    case (2 res')
    note ok = elections_okD [OF assms(1) 2(2)]
    have "d = x \<or> (d, t0, x) \<in> granted c" if "is_candidate (role_of (node c x))" "res d = Some (Inr True)" for d
      using that 2(1,3) ok(4) [OF that(1)] ok(5) [OF that(1), of d] assms(2) by (auto split: if_splits)
    with ok(1-4) show ?thesis by (simp del: role_tests)
  qed
qed

lemma asks_ok_result:
  assumes "asks_ok c" and "c' = set_result a b r c1" and "election c1 = election c" and "election c a \<noteq> None"
    and "asked c' = insert (a, b, t) (asked c)" and "t \<le> cur_term (node c' a)"
    and "\<And>x. cur_term (node c x) \<le> cur_term (node c' x)"
    and "distinct (map vote_key (late_votes c'))"
    and "\<And>d n u. (d, n, u) \<in> vote_key ` set (late_votes c') \<Longrightarrow> (d, n, u) \<in> asked c' \<and> (n, u, d) \<notin> granted c'"
  shows "asks_ok c'"
  unfolding asks_ok_def
proof (intro conjI allI impI)
  fix d n u
  assume "(d, n, u) \<in> asked c'"
  with assms(5,6) asks_okD(1) [OF assms(1), of d n u] assms(7) [of d] show "u \<le> cur_term (node c' d)"
    by auto
next
  fix x t0 res d u
  assume "election c' x = Some (t0, res)" and d: "res d = None" "(x, d, u) \<in> asked c'"
  then have "election (set_result a b r c1) x = Some (t0, res)" using assms(2) by simp
  then show "u < t0"
  proof (cases rule: election_set_result)
    case 1
    with d assms(3,5) asks_okD(4) [OF assms(1), of x t0 res d u] show ?thesis by auto
  next
    case (2 res')
    with d assms(3,5) asks_okD(4) [OF assms(1), of x t0 res' d u] show ?thesis by (auto split: if_splits)
  qed
qed (use assms(8,9) in blast)+

abbreviation inv_parts :: "'a list \<Rightarrow> ('a, 'f) cluster \<Rightarrow> bool" where
  "inv_parts srv c \<equiv> votes_ok c \<and> asks_ok c \<and> elections_ok c \<and> wins_ok srv c"

lemma vote_open_SomeD: "vote_open c a b \<Longrightarrow> election c a \<noteq> None"
  by (auto simp: vote_open_def split: option.splits)

lemma ask_vote_ok:
  assumes "ask_vote io a b c = Some c'" and "inv_parts srv c" and "ids_ok srv c"
  shows "inv_parts srv c'"
proof -
  from assms(1) have vo: "vote_open c a b" by (auto simp: ask_vote_def split: if_splits)
  show ?thesis
  proof (cases "election_request (node c a) b")
    case None
    with assms(1) vo have c': "c' = set_result a b (Inr True) c" by (simp add: ask_vote_def)
    from None assms(3) have ab: "b = a" by (auto simp: election_request_def ids_ok_def split: if_splits)
    have "asks_ok c'"
      unfolding asks_ok_def
    proof (intro conjI allI impI)
      fix x t0 res d u
      assume "election c' x = Some (t0, res)" and d: "res d = None" "(x, d, u) \<in> asked c'"
      then have "election (set_result a b (Inr True) c) x = Some (t0, res)" using c' by simp
      then show "u < t0"
        by (cases rule: election_set_result)
          (use d c' assms(2) asks_okD(4) in \<open>auto split: if_splits\<close>)
    qed (use asks_okD(1-3) [OF assms(2) [THEN conjunct2, THEN conjunct1]] c' in simp_all)
    moreover have "elections_ok c'" using elections_ok_result [of c "Inr True" b a] assms(2) c' ab by simp
    moreover have "votes_ok c'" using votes_ok_frame [of c c'] assms(2) c' by simp
    moreover have "wins_ok srv c'" using wins_ok_mono [of srv c c'] assms(2) c' by simp
    ultimately show ?thesis by blast
  next
    case (Some req)
    let ?t = "cur_term (node c a)"
    let ?c = "note_asked req b c"
    obtain r c1 where v: "cast_vote io b req ?c = (r, c1)" by fastforce
    with assms(1) vo Some have c': "c' = set_result a b r c1" by (simp add: ask_vote_def)
    from election_request_fields [OF Some] assms(3) have req: "rv_term req = ?t" "candidate_id req = a" "b \<noteq> a"
      by (auto simp: ids_ok_def)
    from ask_is_new [OF _ _ vo] assms(2) have new: "(a, b, ?t) \<notin> asked c" by blast
    have as: "asked ?c = insert (a, b, ?t) (asked c)" and gr: "granted ?c = granted c" and rn: "ran ?c = ran c"
      by (simp_all add: note_asked_def req)
    from new assms(2) have ng: "(b, ?t, a) \<notin> granted c" using votes_okD(2) [of c b ?t a] by auto
    note run = cast_vote_run [OF v] and fr = cast_vote_run_frame [OF v]
    have node_a: "node c1 a = node c a" using req(3) by (subst run(1)) simp
    have up: "cur_term (node c x) \<le> cur_term (node c1 x)" for x
      using evolves_role(3) [OF run(2)] by (cases "x = b", simp) (subst run(1), simp)
    have g: "granted c1 \<subseteq> insert (b, ?t, a) (granted c)" "granted c \<subseteq> granted c1"
      using run(3) req gr by (auto split: if_splits)
    have "votes_ok ?c" using votes_ok_frame [of c ?c] assms(2) as gr rn by auto
    then have v1: "votes_ok c1" by (rule cast_votes_ok [OF _ v]) (use as gr ng req in auto)
    have e1: "elections_ok c1"
      by (rule elections_ok_node [of c c1 b "node c1 b"]) (use assms(2) run(1,2) g fr rn in simp_all)
    have "votes_ok c'" using votes_ok_frame [OF v1, of c'] c' by simp
    moreover have "elections_ok c'" unfolding c'
      by (rule elections_ok_result [OF e1]) (use run(3) req node_a in auto)
    moreover have "wins_ok srv c'" using wins_ok_mono [of srv c c'] assms(2) c' fr g rn
      by (simp add: note_asked_def)
    moreover have "asks_ok c'"
    proof (rule asks_ok_result [of c c' a b r c1 ?t])
      show "asks_ok c" using assms(2) by blast
      fix d n u
      assume "(d, n, u) \<in> vote_key ` set (late_votes c')"
      then have l: "(d, n, u) \<in> vote_key ` set (late_votes c)" using c' fr by simp
      from asks_okD(3) [OF _ this] assms(2) have "(d, n, u) \<in> asked c" "(n, u, d) \<notin> granted c" by blast+
      with g(1) new c' fr as show "(d, n, u) \<in> asked c' \<and> (n, u, d) \<notin> granted c'" by auto
    qed (use assms(2) c' fr as up node_a vote_open_SomeD [OF vo] asks_okD(2) in \<open>auto simp: up\<close>)
    ultimately show ?thesis by blast
  qed
qed

lemma vote_timeout_ok:
  assumes "vote_timeout a b c = Some c'" and "inv_parts srv c" and "ids_ok srv c"
  shows "inv_parts srv c'"
proof -
  let ?t = "cur_term (node c a)"
  from assms(1) obtain req where vo: "vote_open c a b" and req: "election_request (node c a) b = Some req"
    and c': "c' = set_result a b (Inl (Anyhow ''timeout'')) ((note_asked req b c)\<lparr>late_votes := late_votes c @ [(b, req)]\<rparr>)"
    by (auto simp: vote_timeout_def split: if_splits option.splits)
  from election_request_fields [OF req] assms(3) have f: "rv_term req = ?t" "candidate_id req = a"
    by (auto simp: ids_ok_def)
  then have key: "vote_key (b, req) = (a, b, ?t)" by (simp add: vote_key_def)
  have ak: "asks_ok c" using assms(2) by blast
  from ask_is_new [OF _ _ vo] assms(2) have new: "(a, b, ?t) \<notin> asked c" by blast
  then have ng: "(b, ?t, a) \<notin> granted c" using assms(2) votes_okD(2) [of c b ?t a] by auto
  have fr: "node c' = node c" "granted c' = granted c" "ran c' = ran c" "won c' = won c"
    "asked c' = insert (a, b, ?t) (asked c)" "late_votes c' = late_votes c @ [(b, req)]"
    by (simp_all add: c' note_asked_def f)
  have fresh: "(a, b, ?t) \<notin> vote_key ` set (late_votes c)"
  proof
    assume "(a, b, ?t) \<in> vote_key ` set (late_votes c)"
    from asks_okD(3) [OF ak this] new show False by simp
  qed
  have "votes_ok c'" using votes_ok_frame [of c c'] assms(2) fr by auto
  moreover have "wins_ok srv c'" using wins_ok_mono [of srv c c'] assms(2) fr by simp
  moreover have "elections_ok c'"
    unfolding c'
    by (rule elections_ok_result, rule elections_ok_node [of c _ a "node c a"])
      (use assms(2) in \<open>auto simp: note_asked_def\<close>)
  moreover have "asks_ok c'"
  proof (rule asks_ok_result [OF ak c'])
    show "distinct (map vote_key (late_votes c'))"
      using asks_okD(2) [OF ak] fresh fr key by simp
    fix d n u
    assume "(d, n, u) \<in> vote_key ` set (late_votes c')"
    then have "(d, n, u) = (a, b, ?t) \<or> (d, n, u) \<in> vote_key ` set (late_votes c)"
      using fr(6) key by simp
    then show "(d, n, u) \<in> asked c' \<and> (n, u, d) \<notin> granted c'"
      using asks_okD(3) [OF ak] ng fr by auto
  qed (use fr vote_open_SomeD [OF vo] in auto)
  ultimately show ?thesis by blast
qed

lemma distinct_drop_nth:
  assumes "distinct xs" and "i < length xs"
  shows "distinct (drop_nth i xs)" and "xs ! i \<notin> set (drop_nth i xs)"
proof -
  have "distinct (take i xs @ xs ! i # drop (Suc i) xs)"
    using assms id_take_nth_drop [OF assms(2)] by simp
  then show "distinct (drop_nth i xs)" and "xs ! i \<notin> set (drop_nth i xs)"
    by (auto simp: drop_nth_def)
qed

lemma map_drop_nth: "map f (drop_nth i xs) = drop_nth i (map f xs)"
  by (simp add: drop_nth_def take_map drop_map)

lemma late_vote_ok:
  assumes "late_vote io i c = Some c'" and "inv_parts srv c"
  shows "inv_parts srv c'"
proof -
  have ak: "asks_ok c" using assms(2) by blast
  let ?c = "c\<lparr>late_votes := drop_nth i (late_votes c)\<rparr>"
  from assms(1) obtain b req where i: "i < length (late_votes c)" and bi: "late_votes c ! i = (b, req)"
    and c': "c' = snd (cast_vote io b req ?c)"
    by (auto simp: late_vote_def split: if_splits prod.splits)
  then obtain r where v: "cast_vote io b req ?c = (r, c')" by (metis prod.collapse)
  let ?k = "(candidate_id req, b, rv_term req)"
  note run = cast_vote_run [OF v] and fr = cast_vote_run_frame [OF v]
  have key: "vote_key (late_votes c ! i) = ?k" using bi by (simp add: vote_key_def)
  with i have "?k \<in> vote_key ` set (late_votes c)" by (metis imageI nth_mem)
  from asks_okD(3) [OF ak this] have k: "?k \<in> asked c" "(b, rv_term req, candidate_id req) \<notin> granted c" by blast+
  have dist: "distinct (map vote_key (drop_nth i (late_votes c)))"
    and other: "?k \<notin> vote_key ` set (drop_nth i (late_votes c))"
    using distinct_drop_nth [of "map vote_key (late_votes c)" i] asks_okD(2) [OF ak] i key
    by (simp_all add: map_drop_nth [symmetric])
  have up: "cur_term (node c x) \<le> cur_term (node c' x)" for x
    using evolves_role(3) [OF run(2)] by (cases "x = b", simp) (subst run(1), simp)
  have g: "granted c' \<subseteq> insert (b, rv_term req, candidate_id req) (granted c)" "granted c \<subseteq> granted c'"
    using run(3) by (auto split: if_splits)
  have "votes_ok c'"
    by (rule cast_votes_ok [OF _ v]) (use assms(2) k votes_ok_frame [of c ?c] in simp_all)
  moreover have "elections_ok c'"
    by (rule elections_ok_node [of c c' b "node c' b"]) (use assms(2) run(1,2) g fr in simp_all)
  moreover have "wins_ok srv c'" using wins_ok_mono [of srv c c'] assms(2) fr g by simp
  moreover have "asks_ok c'"
    unfolding asks_ok_def
  proof (intro conjI allI impI)
    fix d n u
    assume "(d, n, u) \<in> asked c'"
    then show "u \<le> cur_term (node c' d)" using asks_okD(1) [OF ak, of d n u] up [of d] fr by simp
  next
    fix d n u
    assume "(d, n, u) \<in> vote_key ` set (late_votes c')"
    then have l: "(d, n, u) \<in> vote_key ` set (drop_nth i (late_votes c))" using fr by simp
    with set_drop_nth have "(d, n, u) \<in> vote_key ` set (late_votes c)" by (meson image_mono subsetD)
    from asks_okD(3) [OF ak this] have "(d, n, u) \<in> asked c" "(n, u, d) \<notin> granted c" by blast+
    with l other g(1) fr show "(d, n, u) \<in> asked c'" "(n, u, d) \<notin> granted c'" by auto
  next
    fix x t0 res d u
    assume "election c' x = Some (t0, res)" "res d = None" "(x, d, u) \<in> asked c'"
    then show "u < t0" using asks_okD(4) [OF ak, of x t0 res d u] fr by simp
  qed (use dist fr in simp)
  ultimately show ?thesis by blast
qed

lemma start_election_ok:
  assumes "start_election io a rx c = Some c'" and "inv_parts srv c" and "terms_le k c" and "Suc k < 2 ^ 64"
  shows "inv_parts srv c'"
proof -
  obtain r st where b: "election_begin io rx (node c a) = (r, st)" by fastforce
  note run = election_begin_run [OF b]
  have no: "election c a = None" using assms(1) by (cases "election c a") (auto simp: start_election_def)
  show ?thesis
  proof (cases "r = Inr False")
    case True
    with run(2) assms(1) b no have "c' = put_node a (node c a) c" by (simp add: start_election_def)
    then have "c' = c" by (simp add: put_node_def)
    with assms(2) show ?thesis by simp
  next
    case False
    let ?t = "cur_term (node c a) + 1"
    have st: "cur_term st = ?t" "role_of st = Candidate" using run(3) [OF False] by simp_all
    have up: "cur_term (node c a) < ?t"
      using unat_succ_bound(2) [of "cur_term (node c a)" k] assms(3,4) by (simp add: terms_le_def)
    have c': "node c' = (node c)(a := st)" "ran c' = insert (a, ?t) (ran c)" "granted c' = granted c"
        "asked c' = asked c" "won c' = won c" "late_votes c' = late_votes c"
      and el: "election c' = election c \<or> election c' = (election c)(a \<mapsto> (?t, Map.empty))"
      using assms(1) b no False st(1) by (auto simp: start_election_def split: sum.splits bool.splits)
    have elc: "election c' x = Some (t0, res) \<Longrightarrow> x \<noteq> a \<and> election c x = Some (t0, res) \<or>
        x = a \<and> t0 = ?t \<and> res = Map.empty" for x t0 res
      using el no by (auto split: if_splits)
    have "votes_ok c'"
      by (rule votes_ok_quiet [of c c' a st]) (use assms(2) c' st up in auto)
    moreover have "wins_ok srv c'" by (rule wins_ok_mono [of srv c]) (use assms(2) c' in auto)
    moreover have "elections_ok c'"
      unfolding elections_ok_def
    proof (intro allI impI)
      fix x t0 res
      assume "election c' x = Some (t0, res)"
      from elc [OF this] show "t0 \<le> cur_term (node c' x) \<and> \<not> is_leader (role_of (node c' x)) \<and> (x, t0) \<in> ran c' \<and>
        (is_candidate (role_of (node c' x)) \<longrightarrow> cur_term (node c' x) = t0 \<and>
           (\<forall>b. res b = Some (Inr True) \<longrightarrow> b = x \<or> (b, t0, x) \<in> granted c'))"
      proof
        assume x: "x \<noteq> a \<and> election c x = Some (t0, res)"
        then have e: "election c x = Some (t0, res)" by blast
        have eo: "elections_ok c" using assms(2) by blast
        from elections_okD [OF eo e] x c' show ?thesis by (simp del: role_tests)
      next
        assume "x = a \<and> t0 = ?t \<and> res = Map.empty"
        with c' st show ?thesis by simp
      qed
    qed
    moreover have "asks_ok c'"
    proof -
      have ak: "asks_ok c" using assms(2) by blast
      show ?thesis
        unfolding asks_ok_def
      proof (intro conjI allI impI)
        fix d n u
        assume "(d, n, u) \<in> asked c'"
        then show "u \<le> cur_term (node c' d)"
          using asks_okD(1) [OF ak, of d n u] c' st up by (cases "d = a") auto
      next
        fix x t0 res d u
        assume "election c' x = Some (t0, res)" and d: "res d = None" "(x, d, u) \<in> asked c'"
        from elc [OF this(1)] show "u < t0"
          using d asks_okD(4) [OF ak, of x t0 res d u] asks_okD(1) [OF ak, of x d u] c' up by auto
      qed (use asks_okD(2,3) [OF ak] c' in simp_all)
    qed
    ultimately show ?thesis by blast
  qed
qed

lemma count_true_counted:
  assumes "distinct srv" and "\<And>b. b \<in> set srv \<Longrightarrow> res b \<noteq> None"
  shows "count_true (map (\<lambda>b. the (res b)) srv) = card (counted srv res)"
proof -
  have "count_true (map (\<lambda>b. the (res b)) srv) = length (filter (\<lambda>b. res b = Some (Inr True)) srv)"
    using assms(2)
  proof (induction srv)
    case (Cons b srv)
    then obtain y where "res b = Some y" by fastforce
    with Cons show ?case by (auto simp: count_true_def split: sum.splits)
  qed (simp add: count_true_def)
  also have "\<dots> = card (set (filter (\<lambda>b. res b = Some (Inr True)) srv))"
    by (rule distinct_card [OF distinct_filter [OF assms(1)], symmetric])
  also have "set (filter (\<lambda>b. res b = Some (Inr True)) srv) = counted srv res"
    by (auto simp: counted_def)
  finally show ?thesis .
qed

lemma finish_election_ok:
  assumes "finish_election io a c = Some c'" and "inv_parts srv c" and "ids_ok srv c"
  shows "inv_parts srv c'"
proof -
  have srv: "servers (node c a) = srv" "distinct srv" using assms(3) by (simp_all add: ids_ok_def)
  from assms(1) obtain t0 res where e: "election c a = Some (t0, res)" and all: "\<And>b. b \<in> set srv \<Longrightarrow> res b \<noteq> None"
    by (auto simp: finish_election_def Let_def srv split: option.splits if_splits)
  let ?rs = "map (\<lambda>b. the (res b)) srv"
  obtain r st where f: "election_finish io ?rs (node c a) = (r, st)" by fastforce
  note run = election_finish_run [OF f]
  have el: "elections_ok c" using assms(2) by blast
  have c': "node c' = (node c)(a := st)" "granted c' = granted c" "asked c' = asked c" "ran c' = ran c"
    "late_votes c' = late_votes c" "election c' = (election c)(a := None)"
    "won c' = (if r = Inr True then insert (a, cur_term (node c a), counted srv res) (won c) else won c)"
    using assms(1) e f all by (auto simp: finish_election_def Let_def srv split: if_splits)
  have t: "cur_term st = cur_term (node c a)" using run(1) by simp
  have "votes_ok c'"
  proof (rule votes_ok_quiet [of c c' a st])
    show "(a, cur_term st) \<in> ran c' \<or> voted_for (pers st) = voted_for (pers (node c a))"
      using elections_okD(3,4) [OF el e] run(4) t c'(4) by (cases "is_candidate (role_of (node c a))") auto
  qed (use assms(2) c' t in auto)
  moreover have "asks_ok c'"
    by (rule asks_ok_node [of c c' a st]) (use assms(2) c' t in auto)
  moreover have "elections_ok c'"
    unfolding elections_ok_def
  proof (intro allI impI)
    fix x t1 res1
    assume "election c' x = Some (t1, res1)"
    then have x: "x \<noteq> a" "election c x = Some (t1, res1)" using c'(6) by (auto split: if_splits)
    from elections_okD [OF el x(2)] x(1) c'
    show "t1 \<le> cur_term (node c' x) \<and> \<not> is_leader (role_of (node c' x)) \<and> (x, t1) \<in> ran c' \<and>
      (is_candidate (role_of (node c' x)) \<longrightarrow> cur_term (node c' x) = t1 \<and>
         (\<forall>b. res1 b = Some (Inr True) \<longrightarrow> b = x \<or> (b, t1, x) \<in> granted c'))"
      by (simp del: role_tests)
  qed
  moreover have "wins_ok srv c'"
    unfolding wins_ok_def
  proof (intro allI impI)
    fix x t V
    assume "(x, t, V) \<in> won c'"
    then consider "(x, t, V) \<in> won c" | "r = Inr True" "x = a" "t = cur_term (node c a)" "V = counted srv res"
      using c'(7) by (auto split: if_splits)
    then show "V \<subseteq> set srv \<and> length srv < card V * 2 \<and> (x, t) \<in> ran c' \<and> (\<forall>v \<in> V. v = x \<or> (v, t, x) \<in> granted c')"
    proof cases
      case 1
      with assms(2) have "wins_ok srv c" by blast
      from wins_okD [OF this 1] c' show ?thesis by simp
    next
      case 2
      note w = run(2) [OF 2(1)]
      have "t = t0" using elections_okD(4) [OF el e] w 2(3) by blast
      then show ?thesis
        using 2 w elections_okD(3) [OF el e] elections_okD(5) [OF el e] srv c' count_true_counted [of srv res] all
        by (auto simp: counted_def)
    qed
  qed
  ultimately show ?thesis by blast
qed

section \<open>The invariant holds\<close>

lemma vote_inv_init: "fresh_cluster srv c \<Longrightarrow> vote_inv srv 0 c"
  by (simp add: vote_inv_def base_inv_init)
    (auto simp: fresh_cluster_def votes_ok_def asks_ok_def elections_ok_def wins_ok_def)

lemma vote_inv_step:
  assumes "vote_inv srv k c" and "Suc k < 2 ^ 64" and "cluster_step io c c'"
  shows "vote_inv srv (Suc k) c'"
proof -
  from assms(3) obtain e where e: "exec io e c = Some c'" by (auto simp: cluster_step_def)
  from assms(1) have base: "base_inv srv k c" and parts: "inv_parts srv c" by (simp_all add: vote_inv_def)
  then have ids: "ids_ok srv c" and terms: "terms_le k c" by (simp_all add: base_inv_def)
  have "inv_parts srv c'"
  proof (cases "vote_event e")
    case False
    with append_event_votes [OF e] parts show ?thesis by blast
  next
    case True
    then show ?thesis
    proof (cases e)
      case (StartElection a rx)
      with e start_election_ok [OF _ parts terms assms(2)] show ?thesis by simp
    next
      case (AskVote a b)
      with e ask_vote_ok [OF _ parts ids] show ?thesis by simp
    next
      case (VoteTimeout a b)
      with e vote_timeout_ok [OF _ parts ids] show ?thesis by simp
    next
      case (LateVote i)
      with e late_vote_ok [OF _ parts] show ?thesis by simp
    next
      case (FinishElection a)
      with e finish_election_ok [OF _ parts ids] show ?thesis by simp
    qed simp_all
  qed
  with base_inv_step [OF base assms(2,3)] show ?thesis by (simp add: vote_inv_def)
qed

interpretation votes: counted_system "fresh_cluster srv" "cluster_step io" "vote_inv srv" "2 ^ 64"
  for srv :: "'a list" and io :: "('a, 'f) raft_io"
  by unfold_locales (rule vote_inv_init, assumption, rule vote_inv_step)

lemma majorities_meet:
  assumes "distinct srv" and "V \<subseteq> set srv" and "W \<subseteq> set srv"
    and "length srv < card V * 2" and "length srv < card W * 2"
  shows "V \<inter> W \<noteq> {}"
proof
  assume "V \<inter> W = {}"
  moreover have "finite V" "finite W" using assms(2,3) by (auto intro: finite_subset)
  ultimately have "card V + card W = card (V \<union> W)" by (simp add: card_Un_disjoint)
  also have "\<dots> \<le> length srv"
    using assms(1-3) by (metis Un_least card_mono distinct_card List.finite_set)
  finally show False using assms(4,5) by simp
qed

section \<open>Runs that show the limits\<close>

text \<open>Server 2, which missed the first election, runs in the same term and gets the leader's vote.\<close>

abbreviation second_winner :: "nat event list" where
  "second_winner \<equiv> [StartElection 2 False, AskVote 2 2, AskVote 2 0, AskVote 2 1, FinishElection 2]"

definition split_cluster :: "(nat, string \<times> nat) cluster" where
  "split_cluster = the (exec_all blank_io (first_term @ second_winner) sample_cluster)"

lemma split_run:
  "exec_all blank_io (first_term @ second_winner) sample_cluster = Some split_cluster"
  by (simp add: split_cluster_def cluster_eval raft_eval prog_simps init_persistent_def initial_entry_def)

lemma split_reach: "reach blank_io [0, 1, 2] 10 split_cluster"
  using exec_all_reach [OF sample_reach split_run] by (simp add: eval_nat_numeral)

lemma split_history:
  "(0, 1, {0, 1}) \<in> won split_cluster" "(2, 1, {2, 0}) \<in> won split_cluster"
  by (auto simp: split_cluster_def cluster_eval raft_eval prog_simps init_persistent_def initial_entry_def)

section \<open>Properties of elections\<close>

text \<open>
  Property C1. Two different winners of one term share an elector that itself ran in that term: in
  every reachable cluster the two majorities meet, and whoever is in both has opened an election
  there. So a term in which only one server ran has at most one leader.
\<close>

theorem winners_share_a_candidate:
  assumes "reach io srv k c" and "k < 2 ^ 64"
    and "(a, t, V) \<in> won c" and "(b, t, W) \<in> won c" and "a \<noteq> b"
  shows "V \<inter> W \<noteq> {} \<and> (\<forall>v \<in> V \<inter> W. (v, t) \<in> ran c)"
proof -
  have inv: "vote_inv srv k c" using votes.inv_reaches [OF assms(1) [unfolded reach_def] assms(2)] .
  then have v: "votes_ok c" and w: "wins_ok srv c" and d: "distinct srv"
    by (simp_all add: vote_inv_def base_inv_def ids_ok_def)
  note A = wins_okD [OF w assms(3)] and B = wins_okD [OF w assms(4)]
  have "(x, t) \<in> ran c" if "x \<in> V" "x \<in> W" for x
    using A(3) A(4) [OF that(1)] B(3) B(4) [OF that(2)] votes_okD(4) [OF v, of x t a b] assms(5) by auto
  with majorities_meet [OF d A(1) B(1) A(2) B(2)] show ?thesis by blast
qed

theorem winners_share_a_candidate_witness:
  "{0, 1} \<inter> {2, 0} \<noteq> ({} :: nat set) \<and> (0, 1) \<in> ran split_cluster"
  using winners_share_a_candidate [OF split_reach _ split_history] by simp

text \<open>
  Property C15. Voting once: in every reachable cluster, a server that granted its vote to two
  different candidates of one term has opened an election in that term itself.
\<close>

theorem double_vote_only_by_candidates:
  assumes "reach io srv k c" and "k < 2 ^ 64"
    and "(n, t, d) \<in> granted c" and "(n, t, d') \<in> granted c" and "(n, t) \<notin> ran c"
  shows "d = d'"
proof -
  have "votes_ok c" using votes.inv_reaches [OF assms(1) [unfolded reach_def] assms(2)] by (simp add: vote_inv_def)
  from votes_okD(4) [OF this assms(3,4)] assms(5) show ?thesis by blast
qed

theorem double_vote_only_by_candidates_witness:
  "(1, 1, 0) \<in> granted split_cluster \<and> (1, 1) \<notin> ran split_cluster \<and> (1, 1, 2) \<notin> granted split_cluster"
proof -
  have g: "(1, 1, 0) \<in> granted split_cluster" and r: "(1, 1) \<notin> ran split_cluster"
    by (simp_all add: split_cluster_def cluster_eval raft_eval prog_simps init_persistent_def initial_entry_def)
  have "(1, 1, 2) \<notin> granted split_cluster"
  proof
    assume "(1, 1, 2) \<in> granted split_cluster"
    from double_vote_only_by_candidates [OF split_reach _ this g r] show False by simp
  qed
  with g r show ?thesis by simp
qed

text \<open>
  Property C21. Two leaders of one term are possible: among three servers, server 0 wins term 1 with
  the vote of server 1, then server 2 opens an election in term 1, server 0 grants it its vote
  (a leader's vote is never set) and both lead term 1.
\<close>

theorem two_leaders_reachable:
  "\<exists>c. reach blank_io [0, 1, 2 :: nat] 10 c \<and>
     is_leader (role_of (node c 0)) \<and> cur_term (node c 0) = 1 \<and>
     is_leader (role_of (node c 2)) \<and> cur_term (node c 2) = 1"
proof (intro exI conjI)
  show "reach blank_io [0, 1, 2] 10 split_cluster" by (rule split_reach)
qed (simp_all add: split_cluster_def cluster_eval raft_eval prog_simps init_persistent_def initial_entry_def)

section \<open>A leader that is deposed while it sends\<close>

definition give_up :: "nat \<Rightarrow> 'a list \<Rightarrow> ('a, 'f) cluster \<Rightarrow> ('a, 'f) cluster" where
  "give_up i bs = fold (\<lambda>b. set_task i b (Finished (Inr True))) bs"

lemma give_up_simps [simp]:
  "node (give_up i bs c) = node c" "length (runs (give_up i bs c)) = length (runs c)"
  by (induction bs arbitrary: c) (simp_all add: give_up_def set_task_def)

lemma give_up_run:
  assumes "i < length (runs c)"
  shows "owner (runs (give_up i bs c) ! i) = owner (runs c ! i)"
    and "outcome (runs (give_up i bs c) ! i) = outcome (runs c ! i)"
    and "tasks (runs (give_up i bs c) ! i) =
      (\<lambda>b. if b \<in> set bs then Finished (Inr True) else tasks (runs c ! i) b)"
proof -
  have "owner (runs (give_up i bs c) ! i) = owner (runs c ! i) \<and>
    outcome (runs (give_up i bs c) ! i) = outcome (runs c ! i) \<and>
    tasks (runs (give_up i bs c) ! i) = (\<lambda>b. if b \<in> set bs then Finished (Inr True) else tasks (runs c ! i) b)"
    using assms
  proof (induction bs arbitrary: c)
    case (Cons b bs)
    then show ?case
      using Cons.IH [of "set_task i b (Finished (Inr True)) c"]
      by (auto simp: give_up_def set_task_def fun_eq_iff)
  qed (simp add: give_up_def)
  then show "owner (runs (give_up i bs c) ! i) = owner (runs c ! i)"
    and "outcome (runs (give_up i bs c) ! i) = outcome (runs c ! i)"
    and "tasks (runs (give_up i bs c) ! i) =
      (\<lambda>b. if b \<in> set bs then Finished (Inr True) else tasks (runs c ! i) b)" by blast+
qed

lemma build_deposed:
  assumes "task_at c i b = Some Todo" and "\<not> is_leader (role_of (node c (owner (runs c ! i))))"
  shows "build_append i b c = Some (set_task i b (Finished (Inr True)) c)"
proof -
  let ?a = "owner (runs c ! i)"
  have "send_append_build b (node c ?a) = (Inr (Inl True), node c ?a)"
    using assms(2) by (auto simp: send_append_build_def split: Role.splits)
  with assms(1) show ?thesis by (simp add: build_append_def put_node_def)
qed

lemma builds_deposed:
  assumes "i < length (runs c)" and "owner (runs c ! i) = a" and "\<not> is_leader (role_of (node c a))"
    and "set bs \<subseteq> set (servers (node c a))" and "distinct bs" and "\<forall>b \<in> set bs. tasks (runs c ! i) b = Todo"
  shows "exec_all io (map (BuildAppend i) bs @ es) c = exec_all io es (give_up i bs c)"
  using assms
proof (induction bs arbitrary: c)
  case Nil
  then show ?case by (simp add: give_up_def)
next
  case (Cons b bs)
  let ?c = "set_task i b (Finished (Inr True)) c"
  have "build_append i b c = Some ?c"
    using Cons.prems by (intro build_deposed) (simp_all add: task_at_def)
  moreover have "exec_all io (map (BuildAppend i) bs @ es) ?c = exec_all io es (give_up i bs ?c)"
    using Cons.prems by (intro Cons.IH) (auto simp: set_task_def)
  ultimately show ?case by (simp add: give_up_def)
qed

text \<open>
  Property C22. A leader that is deposed between logging the entries and polling its tasks still
  reports success: the tasks find another role and return \<open>Ok(true)\<close> without sending anything, all of
  them are counted, the commit index jumps to the end of the log, and the call answers \<open>Ok(true)\<close>.
\<close>

theorem deposed_leader_commits:
  assumes "i < length (runs c)" and "owner (runs c ! i) = a" and "outcome (runs c ! i) = None"
    and "\<forall>b. tasks (runs c ! i) b = Todo" and "\<not> is_leader (role_of (node c a))"
    and "distinct (servers (node c a))" and "servers (node c a) \<noteq> []"
  shows "\<exists>c'. exec_all io (map (BuildAppend i) (servers (node c a)) @ [FinishAppend i]) c = Some c' \<and>
    outcome (runs c' ! i) = Some (Inr True) \<and> the_logs (node c' a) = the_logs (node c a) \<and>
    commit_of (node c' a) = usize_sub (length (the_logs (node c a))) 1"
proof -
  let ?srv = "servers (node c a)"
  let ?c = "give_up i ?srv c"
  note g = give_up_run [OF assms(1), of ?srv]
  have "exec_all io (map (BuildAppend i) ?srv @ [FinishAppend i]) c = exec_all io [FinishAppend i] ?c"
    using assms by (intro builds_deposed) auto
  moreover have "map (\<lambda>b. the (task_result (tasks (runs ?c ! i) b))) ?srv = replicate (length ?srv) (Inr True)"
    by (auto simp: g task_result_def intro!: nth_equalityI)
  then have "send_append_finish (map (\<lambda>b. the (task_result (tasks (runs ?c ! i) b))) ?srv) (node c a) =
      (Inr True, (node c a)\<lparr>state := (state (node c a))\<lparr>commit_index := usize_sub (length (the_logs (node c a))) 1\<rparr>\<rparr>)"
    using assms(7) by (simp add: send_append_finish_def count_true_def upd_defs)
  ultimately show ?thesis
    using assms(1-3) by (auto simp: finish_append_def Let_def g task_result_def split: if_splits)
qed

text \<open>Server 2 loses term 1, runs again in term 2 and asks the sending leader of term 1 for its vote.\<close>

abbreviation deposing :: "nat event list" where
  "deposing \<equiv> first_term @ [StartAppend 0 [''x''], StartElection 2 False, AskVote 2 2, VoteTimeout 2 0,
     VoteTimeout 2 1, FinishElection 2, StartElection 2 False, AskVote 2 0]"

theorem deposed_leader_commits_witness:
  "let c = the (exec_all blank_io deposing sample_cluster)
   in role_of (node c 0) = Follower \<and> cur_term (node c 0) = 2 \<and> the_logs (node c 0) = [initial_entry, entry ''x'' 1] \<and>
      (\<exists>c'. exec_all blank_io (map (BuildAppend 0) [0, 1, 2] @ [FinishAppend 0]) c = Some c' \<and>
            outcome (runs c' ! 0) = Some (Inr True) \<and> the_logs (node c' 0) = the_logs (node c 0) \<and>
            commit_of (node c' 0) = 1)"
proof -
  let ?c = "the (exec_all blank_io deposing sample_cluster)"
  note ev = cluster_eval raft_eval prog_simps init_persistent_def initial_entry_def
  have r: "runs ?c = [\<lparr>owner = 0, tasks = (\<lambda>_. Todo), outcome = None\<rparr>]" by (simp add: ev)
  have f: "role_of (node ?c 0) = Follower" "cur_term (node ?c 0) = 2" by (simp_all add: ev)
  have l: "the_logs (node ?c 0) = [initial_entry, entry ''x'' 1]" by (simp add: ev)
  have s: "servers (node ?c 0) = [0, 1, 2]" by (simp add: ev)
  from deposed_leader_commits [of 0 ?c 0 blank_io] r f l s show ?thesis
    unfolding Let_def by simp
qed

end
