(* ===== verification/Ring_Addr.thy ===== *)
theory Ring_Addr
  imports Prelude "HOL-Library.List_Lexorder" "HOL-Library.Char_ord"
begin

text \<open>
  Socket addresses as \<open>src/ring-rs/src/main.rs\<close> uses them: nodes are named by \<open>SocketAddr\<close> values, while
  messages and caches carry their printed form, so a node prints its own name and parses the names it
  receives. The standard library's printer and parser are modelled for IPv4 addresses, after the
  number reader of \<open>std::net\<close>; what the ring needs of them is the locale \<open>addr_net\<close>.
\<close>

section \<open>Decimal numbers\<close>

definition digit :: "nat \<Rightarrow> char" where
  "digit d = char_of (48 + d)"

definition digit_val :: "char \<Rightarrow> nat" where
  "digit_val c = of_char c - 48"

definition is_digit :: "char \<Rightarrow> bool" where
  "is_digit c \<longleftrightarrow> 48 \<le> (of_char c :: nat) \<and> (of_char c :: nat) \<le> 57"

fun show_nat :: "nat \<Rightarrow> string" where
  "show_nat n = (if n < 10 then [digit n] else show_nat (n div 10) @ [digit (n mod 10)])"

declare show_nat.simps [simp del]

definition digits_val :: "string \<Rightarrow> nat" where
  "digits_val ds = foldl (\<lambda>v c. v * 10 + digit_val c) 0 ds"

text \<open>
  \<open>Parser::read_number\<close> with radix 10: a non-empty run of digits, at most \<open>max_digits\<close> of them when given,
  without a superfluous leading zero unless allowed, and not above the type's maximum.
\<close>

definition read_number :: "nat option \<Rightarrow> bool \<Rightarrow> nat \<Rightarrow> string \<Rightarrow> (nat \<times> string) option" where
  "read_number max_digits zero_prefix bound s =
     (let ds = takeWhile is_digit s; rest = dropWhile is_digit s in
      if ds = [] then None
      else if (case max_digits of None \<Rightarrow> False | Some m \<Rightarrow> length ds > m) then None
      else if \<not> zero_prefix \<and> hd ds = CHR ''0'' \<and> length ds > 1 then None
      else if digits_val ds > bound then None
      else Some (digits_val ds, rest))"

definition read_given_char :: "char \<Rightarrow> string \<Rightarrow> string option" where
  "read_given_char c s = (case s of [] \<Rightarrow> None | d # r \<Rightarrow> if d = c then Some r else None)"

lemma digit_simps [simp]: "d < 10 \<Longrightarrow> is_digit (digit d)" "d < 10 \<Longrightarrow> digit_val (digit d) = d"
  by (simp_all add: is_digit_def digit_def digit_val_def)

lemma show_nat_digits: "\<forall>c \<in> set (show_nat n). is_digit c"
  by (induction n rule: show_nat.induct) (subst show_nat.simps, auto)

lemma show_nat_nonempty [simp]: "show_nat n \<noteq> []"
  by (subst show_nat.simps) auto

lemma digits_val_show [simp]: "digits_val (show_nat n) = n"
proof (induction n rule: show_nat.induct)
  case (1 n)
  show ?case
  proof (cases "n < 10")
    case True
    then show ?thesis by (subst show_nat.simps) (simp add: digits_val_def)
  next
    case False
    with 1 have "foldl (\<lambda>v c. v * 10 + digit_val c) 0 (show_nat (n div 10)) = n div 10"
      by (simp add: digits_val_def)
    with False show ?thesis by (subst show_nat.simps) (simp add: digits_val_def)
  qed
qed

lemma digit_zero: "d < 10 \<Longrightarrow> digit d = CHR ''0'' \<Longrightarrow> d = 0"
  using digit_simps(2) [of d] by (simp add: digit_val_def)

lemma show_nat_leading_zero: "hd (show_nat n) = CHR ''0'' \<Longrightarrow> n = 0"
proof (induction n rule: show_nat.induct)
  case (1 n)
  show ?case
  proof (cases "n < 10")
    case True
    with 1(2) show ?thesis by (subst (asm) show_nat.simps) (simp add: digit_zero)
  next
    case False
    then have "hd (show_nat n) = hd (show_nat (n div 10))" by (subst show_nat.simps) simp
    with 1 False have "n div 10 = 0" by simp
    with False show ?thesis by simp
  qed
qed

lemma length_show_nat: "n < 10 ^ k \<Longrightarrow> 0 < k \<Longrightarrow> length (show_nat n) \<le> k"
proof (induction n arbitrary: k rule: show_nat.induct)
  case (1 n)
  show ?case
  proof (cases "n < 10")
    case True
    with 1(3) show ?thesis by (subst show_nat.simps) simp
  next
    case False
    with 1(2) obtain j where j: "k = Suc j" "0 < j"
      by (cases k; cases "k - 1") auto
    with 1(2) have "n div 10 < 10 ^ j" by (auto intro: less_mult_imp_div_less)
    with 1(1) False j show ?thesis by (subst show_nat.simps) auto
  qed
qed

lemma read_number_show:
  assumes "n \<le> bound" and "case m of None \<Rightarrow> True | Some k \<Rightarrow> n < 10 ^ k \<and> 0 < k"
    and "r = [] \<or> \<not> is_digit (hd r)"
  shows "read_number m z bound (show_nat n @ r) = Some (n, r)"
proof -
  have tw: "takeWhile is_digit (show_nat n @ r) = show_nat n"
    and dw: "dropWhile is_digit (show_nat n @ r) = r"
    using assms(3) show_nat_digits [of n]
    by (cases r; simp add: takeWhile_append2 dropWhile_append2)+
  have "\<not> (hd (show_nat n) = CHR ''0'' \<and> length (show_nat n) > 1)"
    using show_nat_leading_zero [of n] by (subst (2) show_nat.simps) auto
  moreover have "\<not> (case m of None \<Rightarrow> False | Some k \<Rightarrow> length (show_nat n) > k)"
    using assms(2) length_show_nat [of n] by (auto split: option.splits simp: not_less)
  ultimately show ?thesis
    using assms(1) by (simp add: read_number_def tw dw Let_def)
qed

section \<open>Addresses\<close>

record SocketAddr =
  octet1 :: u8
  octet2 :: u8
  octet3 :: u8
  octet4 :: u8
  port :: u16

definition show_addr :: "SocketAddr \<Rightarrow> string" where
  "show_addr a = show_nat (unat (octet1 a)) @ ''.'' @ show_nat (unat (octet2 a)) @ ''.'' @
     show_nat (unat (octet3 a)) @ ''.'' @ show_nat (unat (octet4 a)) @ '':'' @ show_nat (unat (port a))"

definition read_octet :: "string \<Rightarrow> (u8 \<times> string) option" where
  "read_octet s = map_option (\<lambda>(n, r). (of_nat n, r)) (read_number (Some 3) False 255 s)"

definition read_dot_octet :: "string \<Rightarrow> (u8 \<times> string) option" where
  "read_dot_octet s = Option.bind (read_given_char (CHR ''.'') s) read_octet"

definition parse_addr :: "string \<Rightarrow> string + SocketAddr" where
  "parse_addr s =
     (case Option.bind (read_octet s) (\<lambda>(a, s).
           Option.bind (read_dot_octet s) (\<lambda>(b, s).
           Option.bind (read_dot_octet s) (\<lambda>(c, s).
           Option.bind (read_dot_octet s) (\<lambda>(d, s).
           Option.bind (read_given_char (CHR '':'') s) (\<lambda>s.
           Option.bind (read_number None True 65535 s) (\<lambda>(p, s).
           if s = [] then Some \<lparr>octet1 = a, octet2 = b, octet3 = c, octet4 = d, port = of_nat p\<rparr> else None)))))) of
        None \<Rightarrow> Inl ''invalid socket address syntax''
      | Some a \<Rightarrow> Inr a)"

lemma read_octet_show: "r = [] \<or> \<not> is_digit (hd r) \<Longrightarrow> read_octet (show_nat (unat (x :: u8)) @ r) = Some (x, r)"
proof -
  assume r: "r = [] \<or> \<not> is_digit (hd r)"
  have "unat x < 256" using unsigned_less [of x] by simp
  with r read_number_show [of "unat x" 255 "Some 3" r False] show ?thesis
    by (simp add: read_octet_def)
qed

lemma read_dot_octet_show:
  "r = [] \<or> \<not> is_digit (hd r) \<Longrightarrow> read_dot_octet (CHR ''.'' # show_nat (unat (x :: u8)) @ r) = Some (x, r)"
  by (simp add: read_dot_octet_def read_given_char_def read_octet_show)

lemma parse_show_addr: "parse_addr (show_addr a) = Inr a"
proof -
  have sep: "\<not> is_digit (CHR ''.'')" "\<not> is_digit (CHR '':'')" by (simp_all add: is_digit_def)
  have "unat (port a) < 65536" using unsigned_less [of "port a"] by simp
  then have "unat (port a) \<le> 65535" by simp
  then have "read_number None True 65535 (show_nat (unat (port a))) = Some (unat (port a), [])"
    using read_number_show [of "unat (port a)" 65535 None "[]" True] by simp
  then show ?thesis
    by (simp add: parse_addr_def show_addr_def read_octet_show read_dot_octet_show sep read_given_char_def)
qed

section \<open>The network as the ring uses it\<close>

text \<open>
  Printing, parsing, and which node the HTTP client reaches under the name \<open>http://<name>\<close>.
\<close>

record 'a net =
  to_string :: "'a \<Rightarrow> string"
  parse :: "string \<Rightarrow> string + 'a"
  resolve :: "string \<Rightarrow> 'a option"

locale addr_net =
  fixes net :: "'a net"
  assumes parse_string [simp]: "parse net (to_string net a) = Inr a"
    and resolve_string [simp]: "resolve net (to_string net a) = Some a"
begin

lemma string_inj [simp]: "to_string net a = to_string net b \<longleftrightarrow> a = b"
  by (metis parse_string sum.inject(2))

lemma string_mem [simp]: "to_string net a \<in> to_string net ` S \<longleftrightarrow> a \<in> S"
  by auto

end

definition sock :: "SocketAddr net" where
  "sock = \<lparr>to_string = show_addr, parse = parse_addr,
     resolve = (\<lambda>s. case parse_addr s of Inl _ \<Rightarrow> None | Inr a \<Rightarrow> Some a)\<rparr>"

interpretation sock: addr_net sock
  by unfold_locales (simp_all add: sock_def parse_show_addr)

end
