(* ===== verification/Ring_Node.thy ===== *)
theory Ring_Node
  imports Ring_Addr
begin

text \<open>
  The ring service of \<open>src/ring-rs/src/main.rs\<close>. The world holds the live nodes and the background
  tasks they have spawned and that have not run yet. An RPC to a live node runs its handler; an RPC
  to any other address fails; the call made by a joining node may also fail although its connection
  is up (the argument \<open>fate\<close> of \<open>join\<close>). A handler or task runs without interruption: the locks it takes are
  released before each of its awaits, so this is the schedule without interference. (\<open>join_lock\<close> is
  released in the statement that takes it and orders nothing.)
\<close>

section \<open>State\<close>

record 'a Connection =
  prev :: 'a
  nxt :: 'a

text \<open>
  \<open>nxt\<close> is the source's \<open>next\<close>. \<open>notified\<close> counts the \<open>HealthCheckRecieved\<close> events sent to the watcher, whose receiver lives as long
  as the process.
\<close>

record 'a Ring =
  me :: 'a
  am_i_coordinator :: bool
  connection :: "'a Connection"
  ring_cache :: "string list"
  notified :: nat

text \<open>The background tasks, with what they captured when they were spawned.\<close>

datatype 'a task =
    RelayList 'a "string list" "string list"
  | RelayElection 'a "string list" "string list"
  | RelayCoordinate 'a "string list" "string list" "string list"
  | Announce "string list"

record 'a world =
  ring :: "'a \<rightharpoonup> 'a Ring"
  spawned :: "'a task list"

type_synonym ('a, 'r) ring_prog = "('a world, string, 'r) prog"

definition set_node :: "'a \<Rightarrow> 'a Ring \<Rightarrow> 'a world \<Rightarrow> 'a world" where
  "set_node n r w = w\<lparr>ring := (ring w)(n \<mapsto> r)\<rparr>"

definition upd_node :: "'a \<Rightarrow> ('a Ring \<Rightarrow> 'a Ring) \<Rightarrow> 'a world \<Rightarrow> 'a world" where
  "upd_node n f w = w\<lparr>ring := (ring w)(n := map_option f (ring w n))\<rparr>"

definition spawn :: "'a task \<Rightarrow> 'a world \<Rightarrow> 'a world" where
  "spawn t w = w\<lparr>spawned := spawned w @ [t]\<rparr>"

definition set_prev_field :: "'a \<Rightarrow> 'a Ring \<Rightarrow> 'a Ring" where
  "set_prev_field a r = r\<lparr>connection := (connection r)\<lparr>prev := a\<rparr>\<rparr>"

definition set_next_field :: "'a \<Rightarrow> 'a Ring \<Rightarrow> 'a Ring" where
  "set_next_field a r = r\<lparr>connection := (connection r)\<lparr>nxt := a\<rparr>\<rparr>"

text \<open>The state of the node a program runs on.\<close>

definition self :: "'a \<Rightarrow> ('a, 'a Ring) ring_prog" where
  "self n = bindE (gets (\<lambda>w. ring w n)) (of_opt ''node is down'')"

text \<open>\<open>RingClient::connect\<close>: the node that answers under that name.\<close>

definition connect :: "'a net \<Rightarrow> string \<Rightarrow> ('a, 'a) ring_prog" where
  "connect net name = bindE (gets (\<lambda>w. case resolve net name of
      None \<Rightarrow> None
    | Some a \<Rightarrow> if ring w a = None then None else Some a)) (of_opt ''transport error'')"

section \<open>Pointer updates\<close>

text \<open>The handlers \<open>set_next\<close> and \<open>set_prev\<close>; the result is the response's \<open>err_msg\<close>.\<close>

definition set_next :: "'a net \<Rightarrow> 'a \<Rightarrow> string \<Rightarrow> ('a, string option) ring_prog" where
  "set_next net n address = (case parse net address of
      Inr next_addr \<Rightarrow> bindE (modify (upd_node n (set_next_field next_addr))) (\<lambda>_. ok None)
    | Inl e \<Rightarrow> ok (Some e))"

definition set_prev :: "'a net \<Rightarrow> 'a \<Rightarrow> string \<Rightarrow> ('a, string option) ring_prog" where
  "set_prev net n address = (case parse net address of
      Inr prev_addr \<Rightarrow> bindE (modify (upd_node n (set_prev_field prev_addr))) (\<lambda>_. ok None)
    | Inl e \<Rightarrow> ok (Some e))"

definition err_msg_to_err :: "string option \<Rightarrow> ('a, unit) ring_prog" where
  "err_msg_to_err m = (case m of Some e \<Rightarrow> fail e | None \<Rightarrow> ok ())"

definition set_next_wrapper :: "'a net \<Rightarrow> 'a \<Rightarrow> 'a \<Rightarrow> ('a, unit) ring_prog" where
  "set_next_wrapper net m dest =
     bindE (connect net (to_string net dest)) (\<lambda>d.
     bindE (set_next net d (to_string net m)) err_msg_to_err)"

definition set_prev_wrapper :: "'a net \<Rightarrow> 'a \<Rightarrow> 'a \<Rightarrow> ('a, unit) ring_prog" where
  "set_prev_wrapper net m dest =
     bindE (connect net (to_string net dest)) (\<lambda>d.
     bindE (set_prev net d (to_string net m)) err_msg_to_err)"

section \<open>Joining and leaving\<close>

text \<open>
  What happens to the call a joining node causes, \<open>client.set_next(..).await\<close>, after its connection is
  up: the handler runs and the response arrives, or the call fails before or after the handler has run.
\<close>

datatype call_fate = Answered | RequestLost | ResponseLost

definition call :: "call_fate \<Rightarrow> ('a, 'r) ring_prog \<Rightarrow> ('a, 'r) ring_prog" where
  "call fate handler = (case fate of
      Answered \<Rightarrow> handler
    | RequestLost \<Rightarrow> fail ''transport error''
    | ResponseLost \<Rightarrow> (\<lambda>w. (Inl ''transport error'', snd (handler w))))"

definition join_impl_no_rollback :: "'a net \<Rightarrow> call_fate \<Rightarrow> 'a \<Rightarrow> string \<Rightarrow> ('a, unit) ring_prog" where
  "join_impl_no_rollback net fate n new_prev =
     bindE (of_sum (parse net new_prev)) (\<lambda>new_prev.
     bindE (self n) (\<lambda>r.
     let old_prev = prev (connection r) in
     bindE (modify (upd_node n (set_prev_field new_prev))) (\<lambda>_.
     bindE (connect net (to_string net old_prev)) (\<lambda>d.
     bindE (call fate (set_next net d (to_string net new_prev))) err_msg_to_err))))"

definition join_impl :: "'a net \<Rightarrow> call_fate \<Rightarrow> 'a \<Rightarrow> string \<Rightarrow> ('a, string) ring_prog" where
  "join_impl net fate n new_prev =
     bindE (self n) (\<lambda>r. \<lambda>w.
       let old_prev = prev (connection r) in
       case join_impl_no_rollback net fate n new_prev w of
         (Inr _, w') \<Rightarrow> (Inr (to_string net old_prev), w')
       | (Inl e, w') \<Rightarrow> (Inl e, upd_node n (set_prev_field old_prev) w'))"

datatype join_result = Prev string | ErrMsg string

definition join :: "'a net \<Rightarrow> call_fate \<Rightarrow> 'a \<Rightarrow> string \<Rightarrow> ('a, join_result) ring_prog" where
  "join net fate n new_prev = (\<lambda>w. case join_impl net fate n new_prev w of
      (Inr old_prev, w') \<Rightarrow> (Inr (Prev old_prev), w')
    | (Inl e, w') \<Rightarrow> (Inr (ErrMsg e), w'))"

text \<open>A process that has just started its server, and its call to the node it was told to join.\<close>

definition new_ring :: "'a \<Rightarrow> 'a Ring" where
  "new_ring addr = \<lparr>me = addr, am_i_coordinator = False, connection = \<lparr>prev = addr, nxt = addr\<rparr>,
     ring_cache = [], notified = 0\<rparr>"

definition main_join :: "'a net \<Rightarrow> 'a \<Rightarrow> 'a option \<Rightarrow> ('a, unit) ring_prog" where
  "main_join net addr join_to =
     bindE (modify (set_node addr (new_ring addr))) (\<lambda>_.
     case join_to of
       None \<Rightarrow> ok ()
     | Some nx \<Rightarrow>
         bindE (connect net (to_string net nx)) (\<lambda>d.
         bindE (join net Answered d (to_string net addr)) (\<lambda>res.
         case res of
           ErrMsg e \<Rightarrow> fail e
         | Prev p \<Rightarrow>
             bindE (modify (upd_node addr (set_next_field nx))) (\<lambda>_.
             bindE (of_sum (parse net p)) (\<lambda>p.
             modify (upd_node addr (set_prev_field p)))))))"

text \<open>
  The shutdown handler: both calls are made, whatever the first returns, then the server stops.
\<close>

definition graceful_shutdown :: "'a net \<Rightarrow> 'a \<Rightarrow> ('a, unit) ring_prog" where
  "graceful_shutdown net n =
     bindE (self n) (\<lambda>r. \<lambda>w.
       let p = prev (connection r); nx = nxt (connection r);
           w1 = snd (set_prev_wrapper net p nx w);
           w2 = snd (set_next_wrapper net nx p w1)
       in (Inr (), w2\<lparr>ring := (ring w2)(n := None)\<rparr>))"

section \<open>Recovery\<close>

text \<open>The loop over the names still to try; every error only goes on to the next name.\<close>

fun recovery_loop :: "'a net \<Rightarrow> 'a \<Rightarrow> string list \<Rightarrow> 'a world \<Rightarrow> 'a world" where
  "recovery_loop net n [] w = w"
| "recovery_loop net n (name # names) w =
     (case parse net name of
        Inl e \<Rightarrow> recovery_loop net n names w
      | Inr p \<Rightarrow> (case set_next_wrapper net n p w of
          (Inl e, w') \<Rightarrow> recovery_loop net n names w'
        | (Inr _, w') \<Rightarrow> upd_node n (set_prev_field p) w'))"

fun index_of :: "string \<Rightarrow> string list \<Rightarrow> nat option" where
  "index_of x [] = None"
| "index_of x (y # ys) = (if x = y then Some 0 else map_option Suc (index_of x ys))"

definition recovery_prev :: "'a net \<Rightarrow> 'a \<Rightarrow> string list \<Rightarrow> 'a world \<Rightarrow> 'a world" where
  "recovery_prev net n member_cache w = (case index_of (to_string net n) member_cache of
      None \<Rightarrow> w
    | Some my_idx \<Rightarrow>
        recovery_loop net n
          (map (\<lambda>i. member_cache ! ((my_idx + i + 1) mod length member_cache)) [0..<length member_cache]) w)"

section \<open>Messages around the ring\<close>

definition check_am_i_coordinator :: "string list \<Rightarrow> string \<Rightarrow> bool" where
  "check_am_i_coordinator addresses m = list_all (\<lambda>address. m \<le> address) addresses"

definition cache_of :: "'a \<Rightarrow> 'a world \<Rightarrow> string list" where
  "cache_of n w = (case ring w n of None \<Rightarrow> [] | Some r \<Rightarrow> ring_cache r)"

definition relay_list :: "'a net \<Rightarrow> 'a \<Rightarrow> string list \<Rightarrow> 'a world \<Rightarrow> 'a world" where
  "relay_list net n addresses w =
     (let cache = cache_of n w;
          w1 = (if \<not> check_am_i_coordinator addresses (to_string net n)
                then upd_node n (\<lambda>r. r\<lparr>am_i_coordinator := False\<rparr>) w else w)
      in spawn (RelayList n addresses cache) w1)"

definition relay_election :: "'a \<Rightarrow> string list \<Rightarrow> 'a world \<Rightarrow> 'a world" where
  "relay_election n addresses w = spawn (RelayElection n addresses (cache_of n w)) w"

definition relay_coordinate :: "'a \<Rightarrow> string list \<Rightarrow> string list \<Rightarrow> 'a world \<Rightarrow> 'a world" where
  "relay_coordinate n addresses visited w = spawn (RelayCoordinate n addresses visited (cache_of n w)) w"

text \<open>The handlers; \<open>list\<close> and \<open>read\<close> are renamed.\<close>

definition list_rpc :: "'a net \<Rightarrow> 'a \<Rightarrow> string list \<Rightarrow> 'a world \<Rightarrow> 'a world" where
  "list_rpc net n addresses w =
     (let w1 = upd_node n (\<lambda>r. r\<lparr>notified := Suc (notified r)\<rparr>) w
      in if to_string net n \<notin> set addresses
         then relay_list net n addresses w1
         else spawn (Announce addresses) w1)"

definition coordinate_rpc :: "'a net \<Rightarrow> 'a \<Rightarrow> string list \<Rightarrow> string list \<Rightarrow> 'a world \<Rightarrow> 'a world" where
  "coordinate_rpc net n addresses visited w =
     (let w1 = upd_node n (\<lambda>r. r\<lparr>am_i_coordinator := check_am_i_coordinator addresses (to_string net n)\<rparr>) w
      in if to_string net n \<notin> set visited then relay_coordinate n addresses visited w1 else w1)"

definition election_rpc :: "'a net \<Rightarrow> 'a \<Rightarrow> string list \<Rightarrow> 'a world \<Rightarrow> 'a world" where
  "election_rpc net n addresses w =
     (if to_string net n \<notin> set addresses then relay_election n addresses w
      else relay_coordinate n addresses [] w)"

definition connection_announce :: "'a \<Rightarrow> string list \<Rightarrow> 'a world \<Rightarrow> 'a world" where
  "connection_announce n addresses = upd_node n (\<lambda>r. r\<lparr>ring_cache := addresses\<rparr>)"

text \<open>A relaying task: the message goes to the node's current \<open>prev\<close>; if that fails, recovery.\<close>

definition send_or_recover :: "'a net \<Rightarrow> 'a \<Rightarrow> string list \<Rightarrow> ('a \<Rightarrow> 'a world \<Rightarrow> 'a world) \<Rightarrow> 'a world \<Rightarrow> 'a world" where
  "send_or_recover net n cache handler w = (case ring w n of
      None \<Rightarrow> w
    | Some r \<Rightarrow> (case connect net (to_string net (prev (connection r))) w of
        (Inr d, w') \<Rightarrow> handler d w'
      | (Inl e, w') \<Rightarrow> recovery_prev net n cache w'))"

fun announce_to :: "'a net \<Rightarrow> string list \<Rightarrow> string list \<Rightarrow> 'a world \<Rightarrow> 'a world" where
  "announce_to net addresses [] w = w"
| "announce_to net addresses (name # names) w =
     (case connect net name w of
        (Inr d, w') \<Rightarrow> announce_to net addresses names (connection_announce d addresses w')
      | (Inl e, w') \<Rightarrow> announce_to net addresses names w')"

fun run_task :: "'a net \<Rightarrow> 'a task \<Rightarrow> 'a world \<Rightarrow> 'a world" where
  "run_task net (RelayList n addresses cache) w =
     send_or_recover net n cache (\<lambda>d. list_rpc net d (addresses @ [to_string net n])) w"
| "run_task net (RelayElection n addresses cache) w =
     send_or_recover net n cache (\<lambda>d. election_rpc net d (addresses @ [to_string net n])) w"
| "run_task net (RelayCoordinate n addresses visited cache) w =
     send_or_recover net n cache (\<lambda>d. coordinate_rpc net d addresses (visited @ [to_string net n])) w"
| "run_task net (Announce addresses) w = announce_to net addresses addresses w"

section \<open>The loops of main\<close>

text \<open>Errors are only logged.\<close>

definition send_or_warn :: "'a net \<Rightarrow> 'a \<Rightarrow> ('a \<Rightarrow> 'a world \<Rightarrow> 'a world) \<Rightarrow> 'a world \<Rightarrow> 'a world" where
  "send_or_warn net n handler w = (case ring w n of
      None \<Rightarrow> w
    | Some r \<Rightarrow> (case connect net (to_string net (prev (connection r))) w of
        (Inr d, w') \<Rightarrow> handler d w'
      | (Inl e, w') \<Rightarrow> w'))"

text \<open>\<open>coordinator_watcher\<close> when three seconds pass without a list message.\<close>

definition watcher_timeout :: "'a net \<Rightarrow> 'a \<Rightarrow> 'a world \<Rightarrow> 'a world" where
  "watcher_timeout net n = send_or_warn net n (\<lambda>d. election_rpc net d [to_string net n])"

text \<open>One round of the \<open>coordinate\<close> loop.\<close>

definition coordinate_tick :: "'a net \<Rightarrow> 'a \<Rightarrow> 'a world \<Rightarrow> 'a world" where
  "coordinate_tick net n w = (case ring w n of
      None \<Rightarrow> w
    | Some r \<Rightarrow> if am_i_coordinator r then send_or_warn net n (\<lambda>d. list_rpc net d [to_string net n]) w else w)"

text \<open>Runs the oldest background task; running until none is left takes as many steps as it takes.\<close>

definition run_next :: "'a net \<Rightarrow> 'a world \<Rightarrow> 'a world" where
  "run_next net w = (case spawned w of
      [] \<Rightarrow> w
    | t # ts \<Rightarrow> run_task net t (w\<lparr>spawned := ts\<rparr>))"

end
