(* ===== verification/Ring_Members.thy ===== *)
theory Ring_Members
  imports Ring_Node
begin

text \<open>
  The doubly linked ring: what a well-formed ring is, that joining splices a node in, what a failed
  join leaves behind, that a graceful shutdown splices a node out, and that recovery closes the gap
  left by crashed nodes.
\<close>

section \<open>Well-formed rings\<close>

definition alive :: "'a world \<Rightarrow> 'a \<Rightarrow> bool" where
  "alive w a \<longleftrightarrow> ring w a \<noteq> None"

definition prev_of :: "'a world \<Rightarrow> 'a \<Rightarrow> 'a" where
  "prev_of w a = prev (connection (the (ring w a)))"

definition next_of :: "'a world \<Rightarrow> 'a \<Rightarrow> 'a" where
  "next_of w a = nxt (connection (the (ring w a)))"

definition linked :: "'a world \<Rightarrow> 'a \<Rightarrow> 'a \<Rightarrow> bool" where
  "linked w x y \<longleftrightarrow> prev_of w x = y \<and> next_of w y = x"

text \<open>The members in the order of the \<open>prev\<close> pointers, which is the order messages travel in.\<close>

definition ring_ok :: "'a world \<Rightarrow> 'a list \<Rightarrow> bool" where
  "ring_ok w xs \<longleftrightarrow> xs \<noteq> [] \<and> distinct xs \<and> (\<forall>x \<in> set xs. alive w x) \<and>
     successively (linked w) (xs @ [hd xs])"

lemma links_frame:
  assumes "successively (linked w) zs"
    and "\<And>x. x \<in> set (butlast zs) \<Longrightarrow> prev_of w' x = prev_of w x"
    and "\<And>x. x \<in> set (tl zs) \<Longrightarrow> next_of w' x = next_of w x"
  shows "successively (linked w') zs"
  using assms
proof (induction zs rule: induct_list012)
  case (3 x y zs)
  have "successively (linked w') (y # zs)"
    using 3(3-5) by (intro 3(2)) auto
  with 3(3-5) show ?case by (auto simp: linked_def)
qed simp_all

lemma ring_ok_rotate:
  assumes "ring_ok w (xs @ ys)"
  shows "ring_ok w (ys @ xs)"
proof (cases "xs = [] \<or> ys = []")
  case True
  with assms show ?thesis by auto
next
  case False
  then obtain x xs' y ys' where eq: "xs = x # xs'" "ys = y # ys'" by (meson neq_Nil_conv)
  from assms have s: "successively (linked w) (xs @ ys @ [x])" by (simp add: ring_ok_def eq)
  then have "successively (linked w) xs" "successively (linked w) (ys @ [x])" "linked w (last xs) y"
    using False successively_append_iff [of "linked w" xs "ys @ [x]"] by (simp_all add: eq)
  then have "successively (linked w) ((ys @ [x]) @ xs' @ [y])"
    using eq successively_append_iff [of "linked w" "ys @ [x]" "xs' @ [y]"]
      successively_append_iff [of "linked w" xs' "[y]"]
    by (auto simp: successively_Cons split: if_splits)
  with assms show ?thesis by (auto simp: ring_ok_def eq)
qed

lemma ring_ok_head:
  assumes "ring_ok w (n # ys)"
  shows "ring w n \<noteq> None" and "prev_of w n = hd (ys @ [n])" and "next_of w (hd (ys @ [n])) = n"
    and "successively (linked w) (ys @ [n])" and "alive w (hd (ys @ [n]))"
    and "ys \<noteq> [] \<Longrightarrow> prev_of w (last ys) = n \<and> next_of w n = last ys"
  using assms
  by (auto simp: ring_ok_def alive_def linked_def successively_Cons successively_append_iff
      split: if_splits) (cases ys; auto simp: linked_def)+

section \<open>What the pointer updates do\<close>

lemma upd_node_ring [simp]: "ring (upd_node n f w) = (ring w)(n := map_option f (ring w n))"
    "spawned (upd_node n f w) = spawned w"
  by (simp_all add: upd_node_def)

lemma alive_upd [simp]: "alive (upd_node n f w) a = alive w a"
  by (simp add: alive_def)

lemma pointers_upd:
  "alive w n \<Longrightarrow> prev_of (upd_node n (set_prev_field p) w) a = (if a = n then p else prev_of w a)"
  "next_of (upd_node n (set_prev_field p) w) a = next_of w a"
  "alive w n \<Longrightarrow> next_of (upd_node n (set_next_field p) w) a = (if a = n then p else next_of w a)"
  "prev_of (upd_node n (set_next_field p) w) a = prev_of w a"
  by (cases "ring w n"; auto simp: prev_of_def next_of_def alive_def set_prev_field_def set_next_field_def)+

lemma self_run [simp]: "alive w n \<Longrightarrow> self n w = (Inr (the (ring w n)), w)"
  by (auto simp: self_def alive_def)

context addr_net
begin

lemma connect_run: "connect net (to_string net a) w = (if alive w a then (Inr a, w) else (Inl ''transport error'', w))"
  by (auto simp: connect_def alive_def)

lemma set_next_run: "set_next net d (to_string net a) w = (Inr None, upd_node d (set_next_field a) w)"
  by (simp add: set_next_def)

lemma set_prev_run: "set_prev net d (to_string net a) w = (Inr None, upd_node d (set_prev_field a) w)"
  by (simp add: set_prev_def)

lemma set_next_wrapper_run: "set_next_wrapper net m d w =
    (if alive w d then (Inr (), upd_node d (set_next_field m) w) else (Inl ''transport error'', w))"
  by (auto simp: set_next_wrapper_def connect_run bindE_app set_next_run err_msg_to_err_def)

lemma set_prev_wrapper_run: "set_prev_wrapper net m d w =
    (if alive w d then (Inr (), upd_node d (set_prev_field m) w) else (Inl ''transport error'', w))"
  by (auto simp: set_prev_wrapper_def connect_run bindE_app set_prev_run err_msg_to_err_def)

text \<open>
  Joining: with a live predecessor and an answered call the two pointers move. A failed join puts back the
  pointer of \<open>n\<close>; the pointer of the predecessor has moved if only the response was lost.
\<close>

lemma rollback_same:
  assumes "alive w n"
  shows "upd_node n (set_prev_field (prev_of w n)) (upd_node n (set_prev_field x) w) = w"
    and "upd_node n (set_prev_field (prev_of w n)) (upd_node m (set_next_field y) (upd_node n (set_prev_field x) w)) =
      upd_node m (set_next_field y) w"
    and "upd_node n (set_prev_field (prev_of w n)) w = w"
  using assms
  by (cases "ring w n"; cases "m = n"; simp add: alive_def upd_node_def set_prev_field_def set_next_field_def prev_of_def
      fun_upd_idem fun_upd_twist)+

lemma join_run:
  assumes "alive w n"
  shows "join net fate n name w = (case parse net name of
      Inl e \<Rightarrow> (Inr (ErrMsg e), w)
    | Inr x \<Rightarrow>
        if \<not> alive w (prev_of w n) \<or> fate = RequestLost then (Inr (ErrMsg ''transport error''), w)
        else if fate = ResponseLost
        then (Inr (ErrMsg ''transport error''), upd_node (prev_of w n) (set_next_field x) w)
        else (Inr (Prev (to_string net (prev_of w n))),
              upd_node (prev_of w n) (set_next_field x) (upd_node n (set_prev_field x) w)))"
  using assms rollback_same [OF assms]
  by (cases fate)
    (auto simp: join_def join_impl_def join_impl_no_rollback_def call_def Let_def bindE_app connect_run
      set_next_run err_msg_to_err_def prev_of_def split: sum.split)

lemma join_splices:
  assumes "ring_ok w (n # ys)" and "x \<notin> set (n # ys)"
  shows "\<exists>w'. main_join net x (Some n) w = (Inr (), w') \<and> ring_ok w' (n # x # ys) \<and>
    (\<forall>a. a \<notin> set (n # x # ys) \<longrightarrow> ring w' a = ring w a) \<and> spawned w' = spawned w"
proof -
  let ?p = "hd (ys @ [n])"
  let ?w0 = "set_node x (new_ring x) w"
  let ?w1 = "upd_node ?p (set_next_field x) (upd_node n (set_prev_field x) ?w0)"
  let ?w2 = "upd_node x (set_prev_field ?p) (upd_node x (set_next_field n) ?w1)"
  note h = ring_ok_head [OF assms(1)]
  have px: "?p \<in> set (n # ys)" by (cases ys) auto
  have nx: "n \<noteq> x" "?p \<noteq> x" using assms(2) px by auto
  have a0: "alive ?w0 a \<longleftrightarrow> a = x \<or> alive w a" for a by (simp add: set_node_def alive_def)
  have al: "alive ?w0 n" "alive ?w0 ?p" "alive ?w0 x" using a0 h(1,5) by (simp_all add: alive_def)
  have p0: "prev_of ?w0 a = prev_of w a" "next_of ?w0 a = next_of w a" if "a \<noteq> x" for a
    using that by (simp_all add: set_node_def prev_of_def next_of_def)
  have "join net Answered n (to_string net x) ?w0 = (Inr (Prev (to_string net ?p)), ?w1)"
    using join_run [OF al(1), of Answered] al(2) p0(1) [OF nx(1)] h(2) by simp
  then have run: "main_join net x (Some n) w = (Inr (), ?w2)"
    using al(1) by (simp add: main_join_def bindE_app connect_run)
  have P: "prev_of ?w2 a = (if a = x then ?p else if a = n then x else prev_of w a)" for a
    using al p0 by (simp add: pointers_upd)
  have N: "next_of ?w2 a = (if a = x then n else if a = ?p then x else next_of w a)" for a
    using al p0 by (simp add: pointers_upd)
  have d: "distinct (ys @ [n])" using assms(1) by (auto simp: ring_ok_def)
  have "successively (linked ?w2) (ys @ [n])"
  proof (rule links_frame [OF h(4)])
    fix a
    show "a \<in> set (butlast (ys @ [n])) \<Longrightarrow> prev_of ?w2 a = prev_of w a"
      using assms d by (auto simp: P)
    assume "a \<in> set (tl (ys @ [n]))"
    moreover from this d have "a \<noteq> ?p" by (cases ys) auto
    moreover from calculation(1) have "a \<noteq> x" using assms(2) by (cases ys) auto
    ultimately show "next_of ?w2 a = next_of w a" by (simp add: N)
  qed
  moreover have "linked ?w2 n x" "linked ?w2 x ?p" using nx by (auto simp: linked_def P N)
  ultimately have "successively (linked ?w2) (n # x # ys @ [n])" by (cases ys) simp_all
  moreover have "\<forall>a \<in> set (n # x # ys). alive ?w2 a"
    using assms(1) by (auto simp: a0 ring_ok_def)
  ultimately have "ring_ok ?w2 (n # x # ys)" using assms by (auto simp: ring_ok_def)
  moreover have "\<forall>a. a \<notin> set (n # x # ys) \<longrightarrow> ring ?w2 a = ring w a"
    using px by (auto simp: set_node_def)
  ultimately show ?thesis using run by (auto simp: set_node_def)
qed

lemma join_failures:
  assumes "alive w n" and "join net fate n name w = (Inr (ErrMsg e), w')"
  shows "(parse net name = Inl e \<or> \<not> alive w (prev_of w n) \<or> fate = RequestLost) \<and> w' = w \<or>
    (\<exists>x. parse net name = Inr x \<and> alive w (prev_of w n) \<and> fate = ResponseLost \<and>
       w' = upd_node (prev_of w n) (set_next_field x) w)"
  using assms(2) by (auto simp: join_run [OF assms(1)] split: sum.splits if_splits)

lemma shutdown_splices:
  assumes "ring_ok w (n # ys)" and "ys \<noteq> []"
  shows "\<exists>w'. graceful_shutdown net n w = (Inr (), w') \<and> ring_ok w' ys \<and>
    (\<forall>a. alive w' a \<longleftrightarrow> a \<noteq> n \<and> alive w a) \<and> spawned w' = spawned w"
proof -
  let ?p = "hd ys" and ?q = "last ys"
  let ?w1 = "upd_node ?q (set_prev_field ?p) w"
  let ?w2 = "upd_node ?p (set_next_field ?q) ?w1"
  define w3 where "w3 = ?w2\<lparr>ring := (ring ?w2)(n := None)\<rparr>"
  note h = ring_ok_head [OF assms(1)]
  have pq: "?p \<in> set ys" "?q \<in> set ys" using assms(2) by auto
  have al: "alive w n" "alive w ?p" "alive w ?q" using assms pq by (auto simp: ring_ok_def)
  have n: "n \<notin> set ys" and d: "distinct ys" using assms(1) by (auto simp: ring_ok_def)
  have "prev (connection (the (ring w n))) = ?p" "nxt (connection (the (ring w n))) = ?q"
    using h(2,6) assms(2) by (auto simp: prev_of_def next_of_def)
  with al have run: "graceful_shutdown net n w = (Inr (), w3)"
    by (simp add: graceful_shutdown_def bindE_app Let_def set_prev_wrapper_run set_next_wrapper_run w3_def)
  have P: "prev_of w3 a = (if a = ?q then ?p else prev_of w a)"
    and N: "next_of w3 a = (if a = ?p then ?q else next_of w a)" if "a \<noteq> n" for a
  proof -
    have "prev_of w3 a = prev_of ?w2 a" "next_of w3 a = next_of ?w2 a"
      using that by (simp_all add: prev_of_def next_of_def w3_def)
    then show "prev_of w3 a = (if a = ?q then ?p else prev_of w a)"
      and "next_of w3 a = (if a = ?p then ?q else next_of w a)"
      using al by (simp_all add: pointers_upd)
  qed
  have bl: "a \<noteq> ?q" if "a \<in> set (butlast ys)" for a
    using that d assms(2) by (metis append_butlast_last_id distinct_append disjoint_iff list.set_intros(1))
  have tl: "a \<noteq> ?p" if "a \<in> set (tl ys)" for a
    using that d assms(2) by (cases ys) auto
  have "successively (linked w) ys" using h(4) by (simp add: successively_append_iff)
  then have "successively (linked w3) ys"
  proof (rule links_frame)
    fix a
    show "prev_of w3 a = prev_of w a" if a: "a \<in> set (butlast ys)"
      using bl [OF a] in_set_butlastD [OF a] n P by (metis (full_types))
    show "next_of w3 a = next_of w a" if a: "a \<in> set (tl ys)"
      using tl [OF a] list.set_sel(2) [OF assms(2) a] n N by (metis (full_types))
  qed
  moreover have "linked w3 ?q ?p" using P [of ?q] N [of ?p] n pq by (auto simp: linked_def)
  ultimately have "successively (linked w3) (ys @ [hd ys])" using assms(2) by (simp add: successively_append_iff)
  moreover have "\<forall>a \<in> set ys. alive w3 a" using assms(1) n by (auto simp: ring_ok_def alive_def w3_def)
  ultimately have "ring_ok w3 ys" using assms(2) d by (simp add: ring_ok_def)
  moreover have "alive w3 a \<longleftrightarrow> a \<noteq> n \<and> alive w a" for a by (simp add: w3_def alive_def)
  moreover have "spawned w3 = spawned w" by (simp add: w3_def)
  ultimately show ?thesis using run by blast
qed

end

section \<open>Recovery\<close>

text \<open>The names tried are the cache read once around, from the place after the own name.\<close>

lemma index_of_append:
  "x \<notin> set us \<Longrightarrow> index_of x (us @ x # vs) = Some (length us)"
  by (induction us) auto

lemma around:
  "map (\<lambda>i. (us @ x # vs) ! ((length us + i + 1) mod length (us @ x # vs))) [0..<length (us @ x # vs)] =
     vs @ us @ [x]" (is "map ?f [0..<length ?l] = _")
proof -
  have "map ?f [0..<length ?l] = rotate (length (us @ [x])) ((us @ [x]) @ vs)"
  proof (rule nth_equalityI)
    fix i
    assume "i < length (map ?f [0..<length ?l])"
    then have i: "i < length ?l" by simp
    then have "map ?f [0..<length ?l] ! i = ?l ! ((length us + i + 1) mod length ?l)"
      by (simp del: upt_Suc)
    moreover have "rotate (length (us @ [x])) ?l ! i = ?l ! ((length (us @ [x]) + i) mod length ?l)"
      using i by (rule nth_rotate)
    ultimately show "map ?f [0..<length ?l] ! i = rotate (length (us @ [x])) ((us @ [x]) @ vs) ! i"
      by (simp del: upt_Suc rotate_Suc add: add.commute add.left_commute)
  qed simp
  also have "\<dots> = vs @ us @ [x]" using rotate_append [of "us @ [x]" vs] by simp
  finally show ?thesis .
qed

context addr_net
begin

lemma recovery_loop_first:
  assumes "\<forall>d \<in> set ds. \<not> alive w d" and "alive w q"
  shows "recovery_loop net n (map (to_string net) (ds @ q # qs)) w =
    upd_node n (set_prev_field q) (upd_node q (set_next_field n) w)"
  using assms by (induction ds) (simp_all add: set_next_wrapper_run)

lemma recovery_loop_frame:
  "spawned (recovery_loop net n names w) = spawned w" "alive (recovery_loop net n names w) a = alive w a"
proof (induction names arbitrary: w)
  case (Cons name names)
  {
    case 1
    show ?case using Cons(1) by (auto simp: set_next_wrapper_run split: sum.splits)
  next
    case 2
    show ?case using Cons(2) by (auto simp: set_next_wrapper_run split: sum.splits)
  }
qed simp_all

lemma recovery_prev_first:
  assumes "n \<notin> set us" and "vs @ us @ [n] = ds @ q # qs" and "\<forall>d \<in> set ds. \<not> alive w d" and "alive w q"
  shows "recovery_prev net n (map (to_string net) (us @ n # vs)) w =
    upd_node n (set_prev_field q) (upd_node q (set_next_field n) w)"
proof -
  let ?c = "map (to_string net) (us @ n # vs)"
  have "map (\<lambda>i. ?c ! ((length us + i + 1) mod length ?c)) [0..<length ?c] = map (to_string net) (vs @ us @ [n])"
    using around [of "map (to_string net) us" "to_string net n" "map (to_string net) vs"] by simp
  moreover have "index_of (to_string net n) ?c = Some (length us)"
    using index_of_append [of "to_string net n" "map (to_string net) us"] assms(1) by auto
  ultimately show ?thesis
    using recovery_loop_first [OF assms(3,4)] assms(2) by (simp add: recovery_prev_def)
qed

lemma recovery_closes:
  assumes "ring_ok w0 (n # ds @ ys)" and "\<forall>a. ring w a = (if a \<in> set ds then None else ring w0 a)"
    and "vs @ us = ds @ ys"
  shows "ring_ok (recovery_prev net n (map (to_string net) (us @ n # vs)) w) (n # ys)"
proof -
  let ?q = "hd (ys @ [n])"
  let ?w = "upd_node n (set_prev_field ?q) (upd_node ?q (set_next_field n) w)"
  have dist: "distinct (n # ds @ ys)" and al0: "\<forall>a \<in> set (n # ds @ ys). alive w0 a"
    using assms(1) by (simp_all add: ring_ok_def)
  have al: "alive w a \<longleftrightarrow> a \<notin> set ds \<and> alive w0 a" for a using assms(2) by (simp add: alive_def)
  have q: "?q \<in> set (ys @ [n])" by (cases ys) auto
  have "set us \<subseteq> set (ds @ ys)" using assms(3) by (metis Un_upper2 set_append)
  then have nu: "n \<notin> set us" using dist by auto
  have "vs @ us @ [n] = ds @ ?q # tl (ys @ [n])"
    using assms(3) by (metis append.assoc append_is_Nil_conv list.collapse not_Cons_self2)
  note names = this
  have aq: "alive w ?q" and an: "alive w n" using al al0 q dist by (cases ys; auto)+
  have run: "recovery_prev net n (map (to_string net) (us @ n # vs)) w = ?w"
    by (rule recovery_prev_first [OF nu names]) (use al aq in auto)
  have P: "prev_of ?w a = (if a = n then ?q else prev_of w a)"
    and N: "next_of ?w a = (if a = ?q then n else next_of w a)" for a
    using aq an by (simp_all add: pointers_upd)
  have same: "prev_of w a = prev_of w0 a" "next_of w a = next_of w0 a" if "a \<notin> set ds" for a
    using that assms(2) by (simp_all add: prev_of_def next_of_def)
  have "successively (linked w0) (ds @ ys @ [n])" using ring_ok_head(4) [OF assms(1)] by simp
  then have "successively (linked w0) (ys @ [n])" by (simp add: successively_append_iff)
  then have "successively (linked ?w) (ys @ [n])"
  proof (rule links_frame)
    fix a
    show "prev_of ?w a = prev_of w0 a" if "a \<in> set (butlast (ys @ [n]))"
      using that dist same by (auto simp: P)
    show "next_of ?w a = next_of w0 a" if "a \<in> set (tl (ys @ [n]))"
    proof -
      from that dist have "a \<noteq> ?q" "a \<notin> set ds" by (cases ys; auto)+
      then show ?thesis using same by (simp add: N)
    qed
  qed
  moreover have "linked ?w n ?q" by (simp add: linked_def P N)
  ultimately have "successively (linked ?w) (n # ys @ [n])" by (cases ys) simp_all
  moreover have "\<forall>a \<in> set (n # ys). alive ?w a" using al al0 dist by auto
  ultimately show ?thesis unfolding run using dist by (auto simp: ring_ok_def)
qed

end

section \<open>Properties of membership\<close>

text \<open>
  Property C7. Joining splices: when a new process joins a well-formed ring at the member \<open>n\<close>, \<open>main\<close>
  succeeds and the result is the well-formed ring with the new node between \<open>n\<close> and its former
  predecessor; no other node is touched and no task is spawned.
\<close>

theorem ring_join_splices:
  assumes "ring_ok w (n # ys)" and "x \<notin> set (n # ys)"
  shows "\<exists>w'. main_join sock x (Some n) w = (Inr (), w') \<and> ring_ok w' (n # x # ys) \<and>
    (\<forall>a. a \<notin> set (n # x # ys) \<longrightarrow> ring w' a = ring w a) \<and> spawned w' = spawned w"
  using assms by (rule sock.join_splices)

text \<open>A ring of one node, and nodes to join it.\<close>

definition host :: "u8 \<Rightarrow> SocketAddr" where
  "host i = \<lparr>octet1 = 127, octet2 = 0, octet3 = 0, octet4 = i, port = 4000\<rparr>"

definition lone_world :: "SocketAddr world" where
  "lone_world = \<lparr>ring = [host 1 \<mapsto> new_ring (host 1)], spawned = []\<rparr>"

lemma host_eq [simp]: "host i = host j \<longleftrightarrow> i = j"
  by (auto simp: host_def)

lemma lone_ring: "ring_ok lone_world [host 1]"
  by (simp add: ring_ok_def alive_def lone_world_def linked_def prev_of_def next_of_def new_ring_def)

theorem ring_join_splices_witness:
  "\<exists>w'. main_join sock (host 2) (Some (host 1)) lone_world = (Inr (), w') \<and> ring_ok w' [host 1, host 2]"
  using ring_join_splices [OF lone_ring, of "host 2"] by auto

text \<open>
  Property C10. What a failed join leaves behind. Whenever \<open>join\<close> answers with an error message, either the
  name did not parse, the predecessor could not be reached or the call did not get there, and the world
  is exactly as before; or the predecessor carried out the call and only its response was lost, and then the
  rollback restores the node itself but the predecessor's \<open>next\<close> stays moved to the process that did
  not join, so a well-formed ring is no longer well-formed.
\<close>

theorem ring_failed_join:
  assumes "alive w n" and "join sock fate n name w = (Inr (ErrMsg e), w')"
  shows "(parse sock name = Inl e \<or> \<not> alive w (prev_of w n) \<or> fate = RequestLost) \<and> w' = w \<or>
    (\<exists>x. parse sock name = Inr x \<and> alive w (prev_of w n) \<and> fate = ResponseLost \<and>
       w' = upd_node (prev_of w n) (set_next_field x) w \<and>
       (\<forall>ys. ring_ok w (n # ys) \<longrightarrow> x \<noteq> n \<longrightarrow> \<not> ring_ok w' (n # ys)))"
proof -
  have "\<not> ring_ok w' (n # ys)"
    if "alive w (prev_of w n)" "w' = upd_node (prev_of w n) (set_next_field x) w" "x \<noteq> n" for x ys
  proof
    assume "ring_ok w' (n # ys)"
    note h = ring_ok_head(2,3) [OF this]
    have "next_of w' (prev_of w' n) = n" using h by simp
    with that show False by (simp add: pointers_upd)
  qed
  with sock.join_failures [OF assms] show ?thesis by blast
qed

definition pair_world :: "SocketAddr world" where
  "pair_world = (let node = (\<lambda>a p. (new_ring a)\<lparr>connection := \<lparr>prev = p, nxt = p\<rparr>\<rparr>) in
     \<lparr>ring = [host 1 \<mapsto> node (host 1) (host 2), host 2 \<mapsto> node (host 2) (host 1)], spawned = []\<rparr>)"

text \<open>The second node of two is left with a \<open>next\<close> that is not in the ring.\<close>

theorem ring_failed_join_witness:
  "let w' = snd (join sock ResponseLost (host 1) (to_string sock (host 3)) pair_world)
   in ring_ok pair_world [host 1, host 2] \<and> w' = upd_node (host 2) (set_next_field (host 3)) pair_world \<and>
      \<not> ring_ok w' [host 1, host 2]"
proof -
  let ?w' = "snd (join sock ResponseLost (host 1) (to_string sock (host 3)) pair_world)"
  have al: "alive pair_world (host 1)" "prev_of pair_world (host 1) = host 2" "alive pair_world (host 2)"
    by (simp_all add: pair_world_def alive_def prev_of_def new_ring_def Let_def)
  have run: "join sock ResponseLost (host 1) (to_string sock (host 3)) pair_world = (Inr (ErrMsg ''transport error''), ?w')"
    by (rule run_eqI) (simp add: sock.join_run [OF al(1)] al)
  have "ring_ok pair_world [host 1, host 2]"
    by (simp add: ring_ok_def alive_def pair_world_def linked_def prev_of_def next_of_def new_ring_def Let_def)
  with ring_failed_join [OF al(1) run] al show ?thesis by (auto simp: Let_def)
qed

text \<open>
  Property C9. A graceful shutdown splices out: the ring without the leaving node is well-formed again, no
  other node stops and nothing is left to run.
\<close>

theorem ring_shutdown_splices:
  assumes "ring_ok w (n # ys)" and "ys \<noteq> []"
  shows "\<exists>w'. graceful_shutdown sock n w = (Inr (), w') \<and> ring_ok w' ys \<and>
    (\<forall>a. alive w' a \<longleftrightarrow> a \<noteq> n \<and> alive w a) \<and> spawned w' = spawned w"
  using assms by (rule sock.shutdown_splices)

text \<open>Three nodes linked by hand.\<close>

definition trio_world :: "SocketAddr world" where
  "trio_world = (let node = (\<lambda>a p q. (new_ring a)\<lparr>connection := \<lparr>prev = p, nxt = q\<rparr>\<rparr>) in
     \<lparr>ring = [host 1 \<mapsto> node (host 1) (host 2) (host 3), host 2 \<mapsto> node (host 2) (host 3) (host 1),
              host 3 \<mapsto> node (host 3) (host 1) (host 2)], spawned = []\<rparr>)"

lemma trio_ring: "ring_ok trio_world [host 1, host 2, host 3]"
  by (simp add: ring_ok_def alive_def trio_world_def linked_def prev_of_def next_of_def new_ring_def Let_def)

theorem ring_shutdown_splices_witness:
  "\<exists>w'. graceful_shutdown sock (host 1) trio_world = (Inr (), w') \<and> ring_ok w' [host 2, host 3]"
  using ring_shutdown_splices [OF trio_ring] by auto

text \<open>
  Property C8. Recovery closes the gap: if the nodes \<open>ds\<close> right behind \<open>n\<close> have crashed out of a
  well-formed ring, and \<open>n\<close>'s member cache lists that ring (from any starting point), then
  \<open>recovery_prev\<close> links \<open>n\<close> to the first survivor and the survivors form a well-formed ring.
\<close>

theorem ring_recovery_closes:
  assumes "ring_ok w0 (n # ds @ ys)" and "\<forall>a. ring w a = (if a \<in> set ds then None else ring w0 a)"
    and "vs @ us = ds @ ys"
  shows "ring_ok (recovery_prev sock n (map (to_string sock) (us @ n # vs)) w) (n # ys)"
  using assms by (rule sock.recovery_closes)

theorem ring_recovery_closes_witness:
  "ring_ok (recovery_prev sock (host 1) (map (to_string sock) [host 3, host 1, host 2])
      (trio_world\<lparr>ring := (ring trio_world)(host 2 := None)\<rparr>)) [host 1, host 3]"
  using ring_recovery_closes [where n = "host 1" and ds = "[host 2]" and ys = "[host 3]" and us = "[host 3]"
      and vs = "[host 2]" and ?w0.0 = trio_world and w = "trio_world\<lparr>ring := (ring trio_world)(host 2 := None)\<rparr>"]
    trio_ring by simp

end
