(* ===== verification/Ring_Messages.thy ===== *)
theory Ring_Messages
  imports Ring_Members
begin

text \<open>
  The three messages that travel around the ring. All follow one pattern, the locale \<open>relay\<close>: a node
  that is not yet on the list notes something, adds itself and relays to its predecessor from a
  background task; a node that is on the list ends the round. The round trip is proved once there;
  \<open>list\<close>, \<open>election\<close> and \<open>coordinate\<close> are interpretations.
\<close>

section \<open>One message, once around\<close>

lemma run_spawned: "spawned w = [] \<Longrightarrow> run_next net (spawn t w) = run_task net t w"
  by (cases w) (simp add: run_next_def spawn_def)

lemma upd_node_upd_node: "upd_node n f (upd_node n g w) = upd_node n (\<lambda>r. f (g r)) w"
  by (cases "ring w n") (simp_all add: upd_node_def)

lemma upd_node_same [simp]: "upd_node n (\<lambda>r. r) w = w"
  by (cases w) (simp add: upd_node_def map_option.identity)

locale relay = addr_net net
  for net :: "'a net" +
  fixes handler :: "'a \<Rightarrow> string list \<Rightarrow> 'a world \<Rightarrow> 'a world"
    and task :: "'a \<Rightarrow> string list \<Rightarrow> string list \<Rightarrow> 'a task"
    and note_visit :: "string list \<Rightarrow> 'a \<Rightarrow> 'a Ring \<Rightarrow> 'a Ring"
    and come_home :: "'a \<Rightarrow> string list \<Rightarrow> 'a world \<Rightarrow> 'a world"
  assumes visit: "to_string net y \<notin> set vis \<Longrightarrow>
      handler y vis w = spawn (task y vis (cache_of y w)) (upd_node y (note_visit vis y) w)"
    and return: "to_string net y \<in> set vis \<Longrightarrow> handler y vis w = come_home y vis w"
    and relayed: "run_task net (task y vis cache) w =
      send_or_recover net y cache (\<lambda>d. handler d (vis @ [to_string net y])) w"
    and note_keeps: "connection (note_visit vis y r) = connection r"
begin

abbreviation names :: "'a list \<Rightarrow> string list" where
  "names xs \<equiv> map (to_string net) xs"

text \<open>What the nodes \<open>ys\<close> note as the message passes them, \<open>us\<close> having been passed before.\<close>

fun visits :: "'a list \<Rightarrow> 'a list \<Rightarrow> 'a world \<Rightarrow> 'a world" where
  "visits us [] w = w"
| "visits us (y # ys) w = visits (us @ [y]) ys (upd_node y (note_visit (names us) y) w)"

lemma pointers_note [simp]:
  "prev_of (upd_node y (note_visit vis y) w) a = prev_of w a"
  "next_of (upd_node y (note_visit vis y) w) a = next_of w a"
  by (cases "ring w y"; auto simp: prev_of_def next_of_def note_keeps)+

lemma visits_keeps [simp]:
  "alive (visits us ys w) a = alive w a" "prev_of (visits us ys w) a = prev_of w a"
  "next_of (visits us ys w) a = next_of w a" "spawned (visits us ys w) = spawned w"
  by (induction us ys w rule: visits.induct) simp_all

lemma visits_other: "a \<notin> set ys \<Longrightarrow> ring (visits us ys w) a = ring w a"
  by (induction us ys w rule: visits.induct) simp_all

lemma visits_at:
  assumes "distinct (ys @ y # zs)"
  shows "ring (visits us (ys @ y # zs) w) y = map_option (note_visit (names (us @ ys)) y) (ring w y)"
  using assms
proof (induction ys arbitrary: us w)
  case Nil
  then show ?case by (simp add: visits_other)
next
  case (Cons x ys)
  then have "y \<noteq> x" by auto
  with Cons show ?case by simp
qed

lemma ring_ok_visits: "ring_ok (visits us ys w) xs \<longleftrightarrow> ring_ok w xs"
  by (simp add: ring_ok_def linked_def [abs_def])

lemma send_prev:
  assumes "alive w y" and "alive w (prev_of w y)"
  shows "send_or_recover net y cache h w = h (prev_of w y) w"
  using assms by (auto simp: send_or_recover_def connect_run alive_def prev_of_def)

lemma round_trip:
  assumes "successively (linked w) (ys @ [c])" and "\<forall>y \<in> set (ys @ [c]). alive w y"
    and "c \<in> set us" and "distinct (us @ ys)" and "spawned w = []"
  shows "(run_next net ^^ length ys) (handler (hd (ys @ [c])) (names us) w) = come_home c (names (us @ ys)) (visits us ys w)"
  using assms
proof (induction ys arbitrary: us w)
  case Nil
  then show ?case by (simp add: return)
next
  case (Cons y ys)
  let ?w = "upd_node y (note_visit (names us) y) w"
  let ?t = "task y (names us) (cache_of y w)"
  have y: "to_string net y \<notin> set (names us)" using Cons.prems(4) by auto
  have h: "handler (hd ((y # ys) @ [c])) (names us) w = spawn ?t ?w" using visit [OF y] by simp
  have p: "prev_of w y = hd (ys @ [c])"
    using Cons.prems(1) by (cases ys) (auto simp: linked_def)
  have al: "alive w y" "alive w (hd (ys @ [c]))" using Cons.prems(2) by (cases ys; auto)+
  have "run_next net (spawn ?t ?w) = run_task net ?t ?w"
    using Cons.prems(5) by (simp add: run_spawned)
  also have "\<dots> = handler (hd (ys @ [c])) (names (us @ [y])) ?w"
    using al p by (simp add: relayed send_prev)
  finally have step: "run_next net (spawn ?t ?w) = handler (hd (ys @ [c])) (names (us @ [y])) ?w" .
  have "successively (linked ?w) (ys @ [c])"
    using Cons.prems(1) by (simp add: linked_def [abs_def] successively_Cons split: if_splits)
  then have "(run_next net ^^ length ys) (handler (hd (ys @ [c])) (names (us @ [y])) ?w) =
      come_home c (names ((us @ [y]) @ ys)) (visits (us @ [y]) ys ?w)"
    using Cons.prems by (intro Cons.IH) auto
  with h step show ?case by (simp add: funpow_swap1)
qed

end

text \<open>The loops of \<open>main\<close> send to a live predecessor.\<close>

lemma send_warn_prev:
  assumes "alive w y" and "alive w (prev_of w y)"
  shows "send_or_warn sock y h w = h (prev_of w y) w"
  using assms by (auto simp: send_or_warn_def sock.connect_run alive_def prev_of_def)

section \<open>The three messages\<close>

definition note_list :: "string list \<Rightarrow> SocketAddr \<Rightarrow> SocketAddr Ring \<Rightarrow> SocketAddr Ring" where
  "note_list vis y r = r\<lparr>notified := Suc (notified r),
     am_i_coordinator := check_am_i_coordinator vis (to_string sock y) \<and> am_i_coordinator r\<rparr>"

definition end_list :: "SocketAddr \<Rightarrow> string list \<Rightarrow> SocketAddr world \<Rightarrow> SocketAddr world" where
  "end_list y vis w = spawn (Announce vis) (upd_node y (\<lambda>r. r\<lparr>notified := Suc (notified r)\<rparr>) w)"

definition note_coordinator :: "string list \<Rightarrow> SocketAddr \<Rightarrow> SocketAddr Ring \<Rightarrow> SocketAddr Ring" where
  "note_coordinator addresses y r =
     r\<lparr>am_i_coordinator := check_am_i_coordinator addresses (to_string sock y)\<rparr>"

lemma cache_of_upd: "(\<And>r. ring_cache (f r) = ring_cache r) \<Longrightarrow> cache_of n (upd_node m f w) = cache_of n w"
  by (auto simp: cache_of_def split: option.splits)

interpretation list_relay: relay sock "list_rpc sock" RelayList note_list end_list
proof unfold_locales
  fix y vis w
  assume y: "to_string sock y \<notin> set vis"
  show "list_rpc sock y vis w = spawn (RelayList y vis (cache_of y w)) (upd_node y (note_list vis y) w)"
  proof (cases "check_am_i_coordinator vis (to_string sock y)")
    case True
    then have "note_list vis y = (\<lambda>r. r\<lparr>notified := Suc (notified r)\<rparr>)"
      by (auto simp: note_list_def fun_eq_iff)
    with y True show ?thesis by (simp add: list_rpc_def relay_list_def cache_of_upd)
  next
    case False
    then have "note_list vis y = (\<lambda>r. r\<lparr>notified := Suc (notified r), am_i_coordinator := False\<rparr>)"
      by (auto simp: note_list_def fun_eq_iff)
    with y False show ?thesis by (simp add: list_rpc_def relay_list_def cache_of_upd upd_node_upd_node)
  qed
qed (simp_all add: list_rpc_def end_list_def note_list_def)

interpretation election_relay: relay sock "election_rpc sock" RelayElection "\<lambda>_ _ r. r"
    "\<lambda>y vis. relay_coordinate y vis []"
  by unfold_locales (simp_all add: election_rpc_def relay_election_def)

interpretation coordinate_relay: relay sock "\<lambda>y. coordinate_rpc sock y addresses"
    "\<lambda>y vis cache. RelayCoordinate y addresses vis cache" "\<lambda>_. note_coordinator addresses"
    "\<lambda>y vis. upd_node y (note_coordinator addresses y)"
  for addresses :: "string list"
  by unfold_locales
    (simp_all add: coordinate_rpc_def relay_coordinate_def note_coordinator_def [abs_def] cache_of_upd)

section \<open>Announcing\<close>

lemma announce_run:
  "ring (announce_to sock A (map (to_string sock) xs) w) a =
     (if a \<in> set xs then map_option (\<lambda>r. r\<lparr>ring_cache := A\<rparr>) (ring w a) else ring w a)"
  "spawned (announce_to sock A (map (to_string sock) xs) w) = spawned w"
proof (induction xs arbitrary: w)
  case (Cons x xs)
  {
    case 1
    show ?case using Cons(1) [of "connection_announce x A w"] Cons(1) [of w]
      by (auto simp: sock.connect_run connection_announce_def alive_def option.map_comp comp_def)
  next
    case 2
    show ?case using Cons(2) by (simp add: sock.connect_run connection_announce_def)
  }
qed simp_all

lemma ring_ok_cong:
  assumes "\<And>a. map_option connection (ring w' a) = map_option connection (ring w a)"
  shows "ring_ok w' xs \<longleftrightarrow> ring_ok w xs"
proof -
  have "alive w' a = alive w a \<and> prev_of w' a = prev_of w a \<and> next_of w' a = next_of w a" for a
    using assms [of a] by (cases "ring w a"; cases "ring w' a") (auto simp: alive_def prev_of_def next_of_def)
  then show ?thesis by (simp add: ring_ok_def linked_def [abs_def])
qed

section \<open>Rounds\<close>

definition coordinates :: "SocketAddr world \<Rightarrow> SocketAddr \<Rightarrow> bool" where
  "coordinates w a \<longleftrightarrow> am_i_coordinator (the (ring w a))"

lemma ring_ok_round:
  assumes "ring_ok w (c # ys)"
  shows "successively (linked w) (ys @ [c])" and "\<forall>y \<in> set (ys @ [c]). alive w y" and "distinct ([c] @ ys)"
    and "prev_of w c = hd (ys @ [c])" and "alive w c" and "alive w (hd (ys @ [c]))"
  using ring_ok_head [OF assms] assms by (auto simp: ring_ok_def alive_def)

lemma list_round:
  assumes "ring_ok w (c # ys)" and "spawned w = []" and "coordinates w c"
  shows "(run_next sock ^^ Suc (length ys)) (coordinate_tick sock c w) =
    announce_to sock (map (to_string sock) (c # ys)) (map (to_string sock) (c # ys))
      (upd_node c (\<lambda>r. r\<lparr>notified := Suc (notified r)\<rparr>) (list_relay.visits [c] ys w))"
proof -
  note r = ring_ok_round [OF assms(1)]
  have "coordinate_tick sock c w = list_rpc sock (hd (ys @ [c])) [to_string sock c] w"
    using r(5) assms(3) send_warn_prev [OF r(5)] r(4,6)
    by (auto simp: coordinate_tick_def coordinates_def alive_def)
  then have "(run_next sock ^^ length ys) (coordinate_tick sock c w) =
      end_list c (map (to_string sock) (c # ys)) (list_relay.visits [c] ys w)"
    using list_relay.round_trip [OF r(1,2), of "[c]"] r(3) assms(2) by simp
  then show ?thesis
    using assms(2) by (simp add: end_list_def run_spawned)
qed

lemma election_round:
  assumes "ring_ok w (s # ys)" and "spawned w = []"
  defines "all \<equiv> map (to_string sock) (s # ys)"
  shows "(run_next sock ^^ (length ys + Suc (length ys))) (watcher_timeout sock s w) =
    upd_node s (note_coordinator all s) (coordinate_relay.visits all [s] ys w)"
proof -
  note r = ring_ok_round [OF assms(1)]
  have visits_id: "election_relay.visits us zs v = v" for us zs v
    by (induction us zs v rule: election_relay.visits.induct) simp_all
  have "watcher_timeout sock s w = election_rpc sock (hd (ys @ [s])) [to_string sock s] w"
    using send_warn_prev [OF r(5)] r(4,6) by (simp add: watcher_timeout_def)
  then have "(run_next sock ^^ length ys) (watcher_timeout sock s w) = relay_coordinate s all [] w"
    using election_relay.round_trip [OF r(1,2), of "[s]"] r(3) assms(2) by (simp add: all_def visits_id)
  moreover have "run_next sock (relay_coordinate s all [] w) =
      coordinate_rpc sock (hd (ys @ [s])) all [to_string sock s] w"
    using assms(2) r(4-6) by (simp add: relay_coordinate_def run_spawned election_relay.send_prev)
  moreover have "(run_next sock ^^ length ys) (coordinate_rpc sock (hd (ys @ [s])) all [to_string sock s] w) =
      upd_node s (note_coordinator all s) (coordinate_relay.visits all [s] ys w)"
    using coordinate_relay.round_trip [OF r(1,2), of "[s]" all] r(3) assms(2) by simp
  ultimately show ?thesis by (simp add: funpow_add funpow_swap1)
qed

lemma election_flags:
  assumes "ring_ok w (s # ys)" and "a \<in> set (s # ys)"
  shows "ring (upd_node s (note_coordinator all s) (coordinate_relay.visits all [s] ys w)) a =
    map_option (note_coordinator all a) (ring w a)"
proof (cases "a = s")
  case True
  then have "a \<notin> set ys" using assms(1) by (auto simp: ring_ok_def)
  with True show ?thesis by (simp add: coordinate_relay.visits_other)
next
  case False
  with assms(2) obtain us vs where ys: "ys = us @ a # vs" by (auto simp: in_set_conv_decomp)
  have "distinct (us @ a # vs)" using assms(1) ys by (simp add: ring_ok_def)
  from coordinate_relay.visits_at [OF this, of all "[s]" w] ys False show ?thesis by simp
qed

lemma smallest_name:
  assumes "xs \<noteq> []"
  obtains m where "m \<in> set xs" and "\<forall>b \<in> set xs. to_string sock m \<le> to_string sock b"
proof -
  have "Min (to_string sock ` set xs) \<in> to_string sock ` set xs" using assms by (intro Min_in) auto
  then obtain m where "m \<in> set xs" "to_string sock m = Min (to_string sock ` set xs)" by auto
  with that show thesis by simp
qed

section \<open>Properties of the messages\<close>

text \<open>
  Property C5. An election ends with exactly one coordinator: when a member of a well-formed ring with
  \<open>n\<close> nodes times out and nothing else is under way, the election message and then the coordinate
  message go once around (\<open>2n - 1\<close> background tasks), nothing is left running, the ring is intact, and
  the member whose printed address is smallest is the only one with \<open>am_i_coordinator\<close> set.
\<close>

theorem ring_election_elects_smallest:
  assumes "ring_ok w (s # ys)" and "spawned w = []"
  defines "w' \<equiv> (run_next sock ^^ (2 * length (s # ys) - 1)) (watcher_timeout sock s w)"
  shows "spawned w' = [] \<and> ring_ok w' (s # ys) \<and>
    (\<exists>m \<in> set (s # ys). (\<forall>b \<in> set (s # ys). to_string sock m \<le> to_string sock b) \<and>
       (\<forall>a \<in> set (s # ys). coordinates w' a \<longleftrightarrow> a = m))"
proof -
  let ?all = "map (to_string sock) (s # ys)"
  have w': "w' = upd_node s (note_coordinator ?all s) (coordinate_relay.visits ?all [s] ys w)"
    using election_round [OF assms(1,2)] by (simp add: w'_def mult_2)
  have sp: "spawned w' = []" using assms(2) by (simp add: w')
  have "ring_ok w' (s # ys) \<longleftrightarrow> ring_ok (coordinate_relay.visits ?all [s] ys w) (s # ys)"
    unfolding w' by (rule ring_ok_cong) (simp add: option.map_comp comp_def note_coordinator_def)
  then have ok: "ring_ok w' (s # ys)" using assms(1) coordinate_relay.ring_ok_visits by simp
  have flag: "coordinates w' a \<longleftrightarrow> (\<forall>b \<in> set (s # ys). to_string sock a \<le> to_string sock b)"
    if a: "a \<in> set (s # ys)" for a
  proof -
    obtain r where "ring w a = Some r" using a assms(1) by (auto simp: ring_ok_def alive_def)
    with election_flags [OF assms(1) a, of ?all, folded w'] show ?thesis
      by (simp add: coordinates_def note_coordinator_def check_am_i_coordinator_def list_all_iff)
  qed
  obtain m where m: "m \<in> set (s # ys)" "\<forall>b \<in> set (s # ys). to_string sock m \<le> to_string sock b"
    using smallest_name [of "s # ys"] by auto
  have "coordinates w' a \<longleftrightarrow> a = m" if a: "a \<in> set (s # ys)" for a
    using flag [OF a] m a by (metis order.antisym sock.string_inj)
  with sp ok m show ?thesis by blast
qed

theorem ring_election_elects_smallest_witness:
  "\<exists>m \<in> {host 1, host 2, host 3}.
     \<forall>a \<in> {host 1, host 2, host 3}.
       coordinates ((run_next sock ^^ 5) (watcher_timeout sock (host 1) trio_world)) a \<longleftrightarrow> a = m"
proof -
  have "spawned trio_world = []" by (simp add: trio_world_def Let_def)
  from ring_election_elects_smallest [OF trio_ring this] show ?thesis by auto
qed

text \<open>
  Property C6. A list round tells everyone the membership: when the coordinator \<open>c\<close> of a well-formed
  ring sends its health check and nothing else is under way, the message passes every member once and
  comes home, the announcement reaches every member, all of them cache the members in ring order
  starting with \<open>c\<close>, the ring is intact, and every member with a larger name has resigned.
\<close>

theorem ring_list_round_announces:
  assumes "ring_ok w (c # ys)" and "spawned w = []" and "coordinates w c"
  defines "w' \<equiv> (run_next sock ^^ length (c # ys)) (coordinate_tick sock c w)"
  shows "spawned w' = [] \<and> ring_ok w' (c # ys) \<and> coordinates w' c \<and>
    (\<forall>a \<in> set (c # ys). cache_of a w' = map (to_string sock) (c # ys)) \<and>
    (\<forall>y \<in> set ys. to_string sock c < to_string sock y \<longrightarrow> \<not> coordinates w' y)"
proof -
  let ?all = "map (to_string sock) (c # ys)"
  let ?v = "list_relay.visits [c] ys w"
  let ?u = "upd_node c (\<lambda>r. r\<lparr>notified := Suc (notified r)\<rparr>) ?v"
  have w': "w' = announce_to sock ?all ?all ?u"
    using list_round [OF assms(1-3)] by (simp only: w'_def list.size add_Suc_right add_0_right)
  note ann = announce_run [of ?all "c # ys" ?u, folded w']
  have c: "c \<notin> set ys" using assms(1) by (auto simp: ring_ok_def)
  have "ring_ok w' (c # ys) \<longleftrightarrow> ring_ok ?v (c # ys)"
    by (rule ring_ok_cong) (simp add: ann option.map_comp comp_def)
  then have ok: "ring_ok w' (c # ys)" using assms(1) list_relay.ring_ok_visits by simp
  obtain rc where rc: "ring w c = Some rc" using assms(1) by (auto simp: ring_ok_def alive_def)
  have cc: "coordinates w' c"
    using assms(3) rc c ann(1) [of c] by (simp add: coordinates_def list_relay.visits_other)
  have cache: "cache_of a w' = ?all" if "a \<in> set (c # ys)" for a
  proof -
    have "alive ?u a" using that assms(1) by (auto simp: ring_ok_def)
    then obtain r where "ring ?u a = Some r" by (auto simp: alive_def)
    with ann(1) [of a] that show ?thesis by (simp add: cache_of_def)
  qed
  have "\<not> coordinates w' y" if y: "y \<in> set ys" and less: "to_string sock c < to_string sock y" for y
  proof -
    obtain us vs where ys: "ys = us @ y # vs" using y by (auto simp: in_set_conv_decomp)
    have "distinct (us @ y # vs)" using assms(1) ys by (simp add: ring_ok_def)
    note at = list_relay.visits_at [OF this, of "[c]" w, folded ys]
    obtain r where "ring w y = Some r" using y assms(1) by (auto simp: ring_ok_def alive_def)
    moreover have "\<not> check_am_i_coordinator (map (to_string sock) ([c] @ us)) (to_string sock y)"
      using less by (auto simp: check_am_i_coordinator_def)
    moreover have "y \<noteq> c" using y c by auto
    ultimately show ?thesis using ann(1) [of y] at y by (simp add: coordinates_def note_list_def)
  qed
  with ok cc cache ann(2) assms(2) show ?thesis by simp
qed

theorem ring_list_round_announces_witness:
  "let w = upd_node (host 1) (\<lambda>r. r\<lparr>am_i_coordinator := True\<rparr>) trio_world;
       w' = (run_next sock ^^ 3) (coordinate_tick sock (host 1) w)
   in \<forall>a \<in> {host 1, host 2, host 3}. cache_of a w' = map (to_string sock) [host 1, host 2, host 3]"
proof -
  let ?w = "upd_node (host 1) (\<lambda>r. r\<lparr>am_i_coordinator := True\<rparr>) trio_world"
  have "ring_ok ?w [host 1, host 2, host 3] \<longleftrightarrow> ring_ok trio_world [host 1, host 2, host 3]"
    by (rule ring_ok_cong) (simp add: option.map_comp comp_def)
  moreover have "spawned ?w = []" "coordinates ?w (host 1)"
    by (simp_all add: trio_world_def Let_def coordinates_def)
  ultimately show ?thesis
    using ring_list_round_announces [of ?w "host 1" "[host 2, host 3]"] trio_ring
    by (simp add: Let_def eval_nat_numeral)
qed

end
