(* ===== verification/Ring_History.thy ===== *)
theory Ring_History
  imports Ring_Messages
begin

text \<open>
  The life of a ring: processes join, leave, crash and are repaired, the coordinator checks its members
  and members that miss it call elections. Each of these runs to its end before the next one starts.
\<close>

section \<open>Running to the end\<close>

lemma run_quiet: "spawned w = [] \<Longrightarrow> (run_next net ^^ k) w = w"
  by (induction k) (simp_all add: run_next_def)

lemma quiet_later:
  assumes "spawned ((run_next net ^^ k) v) = []" and "k \<le> m"
  shows "(run_next net ^^ m) v = (run_next net ^^ k) v"
proof -
  have "(run_next net ^^ m) v = (run_next net ^^ (m - k)) ((run_next net ^^ k) v)"
    using assms(2) by (metis funpow_add comp_apply le_add_diff_inverse2)
  with run_quiet [OF assms(1)] show ?thesis by simp
qed

lemma quiet_unique:
  assumes "spawned ((run_next net ^^ k) v) = []" and "spawned ((run_next net ^^ m) v) = []"
  shows "(run_next net ^^ k) v = (run_next net ^^ m) v"
  using quiet_later [OF assms(1), of m] quiet_later [OF assms(2), of k] by (cases "k \<le> m") simp_all

text \<open>All members known, and nothing under way.\<close>

definition whole :: "SocketAddr list \<Rightarrow> SocketAddr world \<Rightarrow> bool" where
  "whole xs w \<longleftrightarrow> ring_ok w xs \<and> spawned w = [] \<and> (\<forall>a. alive w a \<longleftrightarrow> a \<in> set xs)"

lemma whole_member:
  assumes "whole xs w" and "alive w n"
  obtains ys where "whole (n # ys) w"
proof -
  have n: "n \<in> set xs" using assms by (simp add: whole_def)
  obtain us vs where xs: "xs = us @ n # vs" using split_list [OF n] by blast
  have "ring_ok w (us @ n # vs)" using assms(1) xs by (simp add: whole_def)
  from ring_ok_rotate [OF this] have "ring_ok w ((n # vs) @ us)" .
  with assms(1) xs have "whole (n # vs @ us) w" by (auto simp: whole_def)
  then show thesis by (rule that)
qed

lemma whole_kept:
  assumes "whole xs w" and "ring_ok w' ys" and "spawned w' = []" and "set ys = set xs" and "\<And>a. alive w' a = alive w a"
  shows "whole ys w'"
  using assms by (simp add: whole_def)

lemma recovery_prev_frame:
  "spawned (recovery_prev sock n cache w) = spawned w" "alive (recovery_prev sock n cache w) a = alive w a"
  by (auto simp: recovery_prev_def sock.recovery_loop_frame split: option.splits)

section \<open>Rounds\<close>

lemma list_round_whole:
  assumes "whole (c # ys) w" and "coordinates w c"
  shows "whole (c # ys) ((run_next sock ^^ Suc (length ys)) (coordinate_tick sock c w))"
proof -
  let ?all = "map (to_string sock) (c # ys)"
  let ?v = "list_relay.visits [c] ys w"
  let ?u = "upd_node c (\<lambda>r. r\<lparr>notified := Suc (notified r)\<rparr>) ?v"
  define w' where "w' = announce_to sock ?all ?all ?u"
  have ok: "ring_ok w (c # ys)" and q: "spawned w = []" using assms(1) by (simp_all add: whole_def)
  note ann = announce_run [of ?all "c # ys" ?u, folded w'_def]
  have "ring_ok w' (c # ys) \<longleftrightarrow> ring_ok ?v (c # ys)"
    by (rule ring_ok_cong) (simp add: ann option.map_comp comp_def)
  moreover have "alive w' a = alive ?u a" for a by (simp add: alive_def ann)
  ultimately have "whole (c # ys) w'"
    using ok q ann(2) list_relay.ring_ok_visits [of "[c]" ys w] by (intro whole_kept [OF assms(1)]) simp_all
  with list_round [OF ok q assms(2)] show ?thesis unfolding w'_def by simp
qed

lemma election_round_whole:
  assumes "whole (s # ys) w"
  shows "whole (s # ys) ((run_next sock ^^ (length ys + Suc (length ys))) (watcher_timeout sock s w))"
proof -
  let ?all = "map (to_string sock) (s # ys)"
  let ?v = "coordinate_relay.visits ?all [s] ys w"
  let ?w = "upd_node s (note_coordinator ?all s) ?v"
  have ok: "ring_ok w (s # ys)" and q: "spawned w = []" using assms by (simp_all add: whole_def)
  have "ring_ok ?w (s # ys) \<longleftrightarrow> ring_ok ?v (s # ys)"
    by (rule ring_ok_cong) (simp add: option.map_comp comp_def note_coordinator_def)
  then have "whole (s # ys) ?w"
    using ok q coordinate_relay.ring_ok_visits [of ?all "[s]" ys w] by (intro whole_kept [OF assms]) simp_all
  with election_round [OF ok q] show ?thesis by simp
qed

text \<open>After an election exactly the member with the smallest name coordinates.\<close>

lemma election_round_flags:
  assumes "whole (s # ys) w" and "alive w a"
  shows "coordinates ((run_next sock ^^ (length ys + Suc (length ys))) (watcher_timeout sock s w)) a \<longleftrightarrow>
    (\<forall>b. alive w b \<longrightarrow> to_string sock a \<le> to_string sock b)"
proof -
  have ok: "ring_ok w (s # ys)" and q: "spawned w = []" and a: "a \<in> set (s # ys)"
    and al: "\<And>b. alive w b \<longleftrightarrow> b \<in> set (s # ys)"
    using assms by (simp_all add: whole_def)
  obtain r where "ring w a = Some r" using assms(2) by (auto simp: alive_def)
  with election_flags [OF ok a] election_round [OF ok q] al show ?thesis
    by (simp add: coordinates_def note_coordinator_def check_am_i_coordinator_def list_all_iff) blast
qed

section \<open>Histories\<close>

text \<open>The nodes \<open>ds\<close> stop without a word.\<close>

definition crash :: "'a list \<Rightarrow> 'a world \<Rightarrow> 'a world" where
  "crash ds w = w\<lparr>ring := (\<lambda>a. if a \<in> set ds then None else ring w a)\<rparr>"

inductive ring_step :: "SocketAddr world \<Rightarrow> SocketAddr world \<Rightarrow> bool" where
  join: "alive w n \<Longrightarrow> \<not> alive w x \<Longrightarrow> ring_step w (snd (main_join sock x (Some n) w))"
| leave: "alive w n \<Longrightarrow> alive w m \<Longrightarrow> m \<noteq> n \<Longrightarrow> ring_step w (snd (graceful_shutdown sock n w))"
| health_check: "alive w c \<Longrightarrow> w' = (run_next sock ^^ k) (coordinate_tick sock c w) \<Longrightarrow> spawned w' = [] \<Longrightarrow>
    ring_step w w'"
| elect: "alive w s \<Longrightarrow> w' = (run_next sock ^^ k) (watcher_timeout sock s w) \<Longrightarrow> spawned w' = [] \<Longrightarrow>
    ring_step w w'"
| repair: "whole (n # ds @ ys) w \<Longrightarrow> ds \<noteq> [] \<Longrightarrow> vs @ us = ds @ ys \<Longrightarrow>
    cache_of n w = map (to_string sock) (us @ n # vs) \<Longrightarrow>
    ring_step w (run_task sock (RelayList n vis (cache_of n w)) (crash ds w))"

text \<open>A single process that was told to join nobody.\<close>

definition ring_start :: "SocketAddr world \<Rightarrow> bool" where
  "ring_start w \<longleftrightarrow> (\<exists>x. w = snd (main_join sock x None \<lparr>ring = Map.empty, spawned = []\<rparr>))"

definition ring_inv :: "nat \<Rightarrow> SocketAddr world \<Rightarrow> bool" where
  "ring_inv k w \<longleftrightarrow> (\<exists>xs. whole xs w)"

lemma ring_inv_start:
  assumes "ring_start w"
  shows "ring_inv 0 w"
proof -
  from assms obtain x where "w = snd (main_join sock x None \<lparr>ring = Map.empty, spawned = []\<rparr>)"
    by (auto simp: ring_start_def)
  then have "whole [x] w"
    by (simp add: whole_def main_join_def set_node_def ring_ok_def alive_def linked_def prev_of_def
        next_of_def new_ring_def)
  then show ?thesis by (auto simp: ring_inv_def)
qed

lemma join_whole:
  assumes "whole xs w" and "alive w n" and "\<not> alive w x"
  shows "\<exists>zs. whole zs (snd (main_join sock x (Some n) w))"
proof -
  obtain ys where ys: "whole (n # ys) w" using whole_member [OF assms(1,2)] .
  then have ok: "ring_ok w (n # ys)" and x: "x \<notin> set (n # ys)" using assms(3) by (simp_all add: whole_def)
  obtain w' where run: "main_join sock x (Some n) w = (Inr (), w')" and ok': "ring_ok w' (n # x # ys)"
    and fr: "\<forall>a. a \<notin> set (n # x # ys) \<longrightarrow> ring w' a = ring w a" and sp: "spawned w' = spawned w"
    using sock.join_splices [OF ok x] by blast
  have "alive w' a \<longleftrightarrow> a \<in> set (n # x # ys)" for a
  proof (cases "a \<in> set (n # x # ys)")
    case True
    with ok' show ?thesis by (auto simp: ring_ok_def)
  next
    case False
    with fr have "ring w' a = ring w a" by blast
    with False ys show ?thesis by (auto simp: whole_def alive_def)
  qed
  with ok' sp ys have "whole (n # x # ys) w'" by (simp add: whole_def)
  with run show ?thesis by auto
qed

lemma leave_whole:
  assumes "whole xs w" and "alive w n" and "alive w m" and "m \<noteq> n"
  shows "\<exists>zs. whole zs (snd (graceful_shutdown sock n w))"
proof -
  obtain ys where ys: "whole (n # ys) w" using whole_member [OF assms(1,2)] .
  have ok: "ring_ok w (n # ys)" and ne: "ys \<noteq> []" using ys assms(3,4) by (auto simp: whole_def)
  obtain w' where run: "graceful_shutdown sock n w = (Inr (), w')" and ok': "ring_ok w' ys"
    and fr: "\<And>a. alive w' a \<longleftrightarrow> a \<noteq> n \<and> alive w a" and sp: "spawned w' = spawned w"
    using sock.shutdown_splices [OF ok ne] by blast
  have "n \<notin> set ys" using ok by (simp add: ring_ok_def)
  with ok' sp fr ys have "whole ys w'" by (auto simp: whole_def)
  with run show ?thesis by auto
qed

lemma repair_whole:
  assumes "whole (n # ds @ ys) w" and "ds \<noteq> []" and "vs @ us = ds @ ys"
    and "cache_of n w = map (to_string sock) (us @ n # vs)"
  shows "whole (n # ys) (run_task sock (RelayList n vis (cache_of n w)) (crash ds w))"
proof -
  have ok: "ring_ok w (n # ds @ ys)" and q: "spawned w = []" and al: "\<And>a. alive w a \<longleftrightarrow> a \<in> set (n # ds @ ys)"
    using assms(1) by (simp_all add: whole_def)
  have n: "n \<notin> set ds" "n \<notin> set ys" "set ds \<inter> set ys = {}" using ok by (auto simp: ring_ok_def)
  let ?c = "crash ds w"
  have alc: "alive ?c a \<longleftrightarrow> a \<in> set (n # ys)" for a using al n by (auto simp: alive_def crash_def)
  have "prev_of w n = hd ds" using ring_ok_head(2) [OF ok] assms(2) by simp
  then have "prev_of ?c n = hd ds" using n by (simp add: prev_of_def crash_def)
  moreover have "hd ds \<in> set ds" using assms(2) by simp
  ultimately have dead: "\<not> alive ?c (prev_of ?c n)" using alc n by auto
  have run: "run_task sock (RelayList n vis (cache_of n w)) ?c = recovery_prev sock n (cache_of n w) ?c"
    using dead alc [of n] by (auto simp: send_or_recover_def sock.connect_run alive_def prev_of_def)
  have "ring_ok (recovery_prev sock n (cache_of n w) ?c) (n # ys)"
    unfolding assms(4) by (rule sock.recovery_closes [OF ok _ assms(3)]) (simp add: crash_def)
  moreover have "spawned (recovery_prev sock n (cache_of n w) ?c) = []"
      "alive (recovery_prev sock n (cache_of n w) ?c) a = alive ?c a" for a
    using q by (simp_all add: recovery_prev_frame crash_def)
  ultimately show ?thesis using alc unfolding run whole_def by simp
qed

lemma health_whole:
  assumes "whole xs w" and "alive w c" and "w' = (run_next sock ^^ k) (coordinate_tick sock c w)" and "spawned w' = []"
  shows "\<exists>zs. whole zs w'"
proof (cases "coordinates w c")
  case True
  obtain ys where ys: "whole (c # ys) w" using whole_member [OF assms(1,2)] .
  note r = list_round_whole [OF ys True]
  then have "w' = (run_next sock ^^ Suc (length ys)) (coordinate_tick sock c w)"
    using assms(3,4) quiet_unique [of k sock "coordinate_tick sock c w" "Suc (length ys)"] by (simp add: whole_def)
  with r show ?thesis by blast
next
  case False
  then have "coordinate_tick sock c w = w" using assms(2) by (auto simp: coordinate_tick_def coordinates_def alive_def)
  with assms(1,3) show ?thesis by (auto simp: whole_def run_quiet)
qed

lemma elect_whole:
  assumes "whole xs w" and "alive w s" and "w' = (run_next sock ^^ k) (watcher_timeout sock s w)" and "spawned w' = []"
  shows "\<exists>zs. whole zs w'"
proof -
  obtain ys where ys: "whole (s # ys) w" using whole_member [OF assms(1,2)] .
  note r = election_round_whole [OF ys]
  then have "w' = (run_next sock ^^ (length ys + Suc (length ys))) (watcher_timeout sock s w)"
    using assms(3,4) quiet_unique [of k sock "watcher_timeout sock s w" "length ys + Suc (length ys)"]
    by (simp add: whole_def)
  with r show ?thesis by blast
qed

lemma ring_inv_step:
  assumes "ring_inv k w" and "ring_step w w'"
  shows "ring_inv (Suc k) w'"
proof -
  obtain xs where xs: "whole xs w" using assms(1) by (auto simp: ring_inv_def)
  from assms(2) have "\<exists>zs. whole zs w'"
  proof cases
    case (repair n ds ys vs us vis)
    from repair_whole [OF repair(2-5)] repair(1) show ?thesis by blast
  qed (use xs join_whole leave_whole health_whole elect_whole in \<open>blast+\<close>)
  then show ?thesis by (simp add: ring_inv_def)
qed

interpretation history: counted_system ring_start ring_step ring_inv limit for limit :: nat
  by unfold_locales (auto intro: ring_inv_start ring_inv_step)

section \<open>Properties of histories\<close>

text \<open>
  Property C4. The ring stays whole: after any history of joins, departures, health checks, elections and repaired
  crashes, all live processes form one well-formed ring with nothing under way, and an election called by
  any of them ends, after twice the number of members less one background tasks, with the process of the
  smallest name as the only coordinator.
\<close>

theorem ring_stays_whole:
  assumes "reaches ring_start ring_step k w" and "alive w s"
  shows "\<exists>xs. ring_ok w xs \<and> spawned w = [] \<and> (\<forall>a. alive w a \<longleftrightarrow> a \<in> set xs) \<and>
    (let w' = (run_next sock ^^ (2 * length xs - 1)) (watcher_timeout sock s w)
     in spawned w' = [] \<and> (\<forall>a. alive w a \<longrightarrow>
          (coordinates w' a \<longleftrightarrow> (\<forall>b. alive w b \<longrightarrow> to_string sock a \<le> to_string sock b))))"
proof -
  obtain xs where "whole xs w"
    using history.inv_reaches [OF assms(1), of "Suc k"] by (auto simp: ring_inv_def)
  then obtain ys where ys: "whole (s # ys) w" using whole_member [OF _ assms(2)] by blast
  have n: "2 * length (s # ys) - 1 = length ys + Suc (length ys)" by simp
  have "spawned ((run_next sock ^^ (length ys + Suc (length ys))) (watcher_timeout sock s w)) = []"
    using election_round_whole [OF ys] by (simp only: whole_def)
  with ys election_round_flags [OF ys] show ?thesis
    by (intro exI [of _ "s # ys"]) (simp only: n Let_def whole_def simp_thms, blast)
qed

text \<open>Two processes: one starts alone, the other joins it.\<close>

lemma duo_reaches:
  "\<exists>w. reaches ring_start ring_step 1 w \<and> alive w (host 2)"
proof -
  let ?w = "snd (main_join sock (host 1) None \<lparr>ring = Map.empty, spawned = []\<rparr>)"
  let ?v = "snd (main_join sock (host 2) (Some (host 1)) ?w)"
  have s: "ring_start ?w" by (auto simp: ring_start_def)
  have al: "alive ?w a \<longleftrightarrow> a = host 1" for a by (simp add: main_join_def set_node_def alive_def)
  have "ring_step ?w ?v" by (rule join) (simp_all add: al)
  then have "reaches ring_start ring_step (Suc 0) ?v" by (rule reaches_step [OF reaches_init [of ring_start, OF s]])
  moreover have "ring_ok ?w [host 1]"
    by (simp add: main_join_def set_node_def ring_ok_def alive_def linked_def prev_of_def next_of_def new_ring_def)
  from sock.join_splices [OF this, of "host 2"] have "alive ?v (host 2)" by (auto simp: ring_ok_def)
  ultimately show ?thesis by auto
qed

theorem ring_stays_whole_witness:
  "\<exists>w xs. reaches ring_start ring_step 1 w \<and> ring_ok w xs \<and> spawned w = [] \<and> host 2 \<in> set xs"
proof -
  obtain w where w: "reaches ring_start ring_step 1 w" "alive w (host 2)" using duo_reaches by blast
  from ring_stays_whole [OF w] w show ?thesis by blast
qed

end
