(* ===== verification/Fs_Conv.thy ===== *)
theory Fs_Conv
  imports Prelude
begin

unbundle bit_operations_syntax

text \<open>
  The conversions of \<open>src/distfs/src/type_conv.rs\<close> between the file system's metadata, the protocol's
  messages and the types of the FUSE library. Signed integers of the sources are words read with
  \<open>sint\<close>; \<open>as\<close> between integer types is \<open>ucast\<close> or \<open>scast\<close>. Errors are error numbers; a panic is kept
  apart, and so is a task that waits for a lock it holds itself.
\<close>

type_synonym i32 = "32 word"
type_synonym i64 = "64 word"

datatype fs_error = Errno i32 | Panicked | Deadlock

abbreviation EIO :: i32 where "EIO \<equiv> 5"
abbreviation EACCES :: i32 where "EACCES \<equiv> 13"
abbreviation EEXIST :: i32 where "EEXIST \<equiv> 17"
abbreviation EINVAL :: i32 where "EINVAL \<equiv> 22"
abbreviation ENOSYS :: i32 where "ENOSYS \<equiv> 38"

section \<open>Messages\<close>

datatype Filetype = NamedPipe | CharDevice | BlockDevice | Directory | RegularFile | Symlink | Socket

record Timestamp =
  seconds :: i64
  nanos :: i32

text \<open>The field \<open>flag\<close> and the timestamps that may be absent are as in \<open>fs.proto\<close>.\<close>

record Attr =
  a_size :: u64
  a_blocks :: u64
  a_atime :: "Timestamp option"
  a_mtime :: "Timestamp option"
  a_ctime :: "Timestamp option"
  a_kind :: Filetype
  a_perm :: u32
  a_nlink :: u32
  a_uid :: u32
  a_gid :: u32
  a_rdev :: u32
  a_flag :: u32
  a_blksize :: u32

record SettableAttr =
  s_mode :: "u32 option"
  s_uid :: "u32 option"
  s_gid :: "u32 option"
  s_size :: "u64 option"
  s_lock_owner :: "u64 option"
  s_atime :: "Timestamp option"
  s_mtime :: "Timestamp option"
  s_ctime :: "Timestamp option"

section \<open>File types\<close>

datatype FuseFileType =
    FNamedPipe | FCharDevice | FBlockDevice | FDirectory | FRegularFile | FSymlink | FSocket

fun filetype_grpc_to_fuse3 :: "Filetype \<Rightarrow> FuseFileType" where
  "filetype_grpc_to_fuse3 BlockDevice = FBlockDevice"
| "filetype_grpc_to_fuse3 CharDevice = FCharDevice"
| "filetype_grpc_to_fuse3 Directory = FDirectory"
| "filetype_grpc_to_fuse3 RegularFile = FRegularFile"
| "filetype_grpc_to_fuse3 Socket = FSocket"
| "filetype_grpc_to_fuse3 Symlink = FSymlink"
| "filetype_grpc_to_fuse3 NamedPipe = FNamedPipe"

text \<open>
  A \<open>std::fs::FileType\<close> is the mode of the file; its tests compare the bits under \<open>S_IFMT\<close>.
\<close>

definition s_ifmt :: u32 where "s_ifmt = 0xF000"

definition has_type :: "u32 \<Rightarrow> u32 \<Rightarrow> bool" where
  "has_type t mode \<longleftrightarrow> mode AND s_ifmt = t"

definition is_dir :: "u32 \<Rightarrow> bool" where "is_dir = has_type 0x4000"
definition is_file :: "u32 \<Rightarrow> bool" where "is_file = has_type 0x8000"
definition is_symlink :: "u32 \<Rightarrow> bool" where "is_symlink = has_type 0xA000"
definition is_socket :: "u32 \<Rightarrow> bool" where "is_socket = has_type 0xC000"
definition is_block_device :: "u32 \<Rightarrow> bool" where "is_block_device = has_type 0x6000"
definition is_char_device :: "u32 \<Rightarrow> bool" where "is_char_device = has_type 0x2000"
definition is_fifo :: "u32 \<Rightarrow> bool" where "is_fifo = has_type 0x1000"

lemmas file_tests = is_dir_def is_file_def is_symlink_def is_socket_def is_block_device_def
  is_char_device_def is_fifo_def has_type_def

definition std_to_grpc :: "u32 \<Rightarrow> fs_error + Filetype" where
  "std_to_grpc ftype =
     (if is_dir ftype then Inr Directory
      else if is_file ftype then Inr RegularFile
      else if is_symlink ftype then Inr Symlink
      else if is_socket ftype then Inr Socket
      else if is_block_device ftype then Inr BlockDevice
      else if is_char_device ftype then Inr CharDevice
      else if is_fifo ftype then Inr NamedPipe
      else Inl Panicked)"

section \<open>Times\<close>

text \<open>\<open>SystemTime\<close>: seconds in the range of \<open>i64\<close> and nanoseconds; \<open>Duration\<close>: seconds and nanoseconds.\<close>

record SystemTime =
  tv_sec :: int
  tv_nsec :: nat

definition unix_epoch :: SystemTime where
  "unix_epoch = \<lparr>tv_sec = 0, tv_nsec = 0\<rparr>"

definition duration_from_secs :: "u64 \<Rightarrow> nat \<times> nat" where
  "duration_from_secs s = (unat s, 0)"

definition duration_from_nanos :: "u64 \<Rightarrow> nat \<times> nat" where
  "duration_from_nanos n = (unat n div 1000000000, unat n mod 1000000000)"

text \<open>\<open>SystemTime + Duration\<close> panics when the seconds leave the range of \<open>i64\<close>.\<close>

definition add_duration :: "SystemTime \<Rightarrow> nat \<times> nat \<Rightarrow> fs_error + SystemTime" where
  "add_duration t d =
     (let ns = tv_nsec t + snd d;
          s = tv_sec t + int (fst d) + (if ns \<ge> 1000000000 then 1 else 0)
      in if s \<ge> 2 ^ 63 then Inl Panicked
         else Inr \<lparr>tv_sec = s, tv_nsec = (if ns \<ge> 1000000000 then ns - 1000000000 else ns)\<rparr>)"

definition grpc_to_system :: "Timestamp \<Rightarrow> fs_error + SystemTime" where
  "grpc_to_system ts =
     (case add_duration unix_epoch (duration_from_secs (seconds ts)) of
        Inl e \<Rightarrow> Inl e
      | Inr t \<Rightarrow> add_duration t (duration_from_nanos (scast (nanos ts))))"

section \<open>Attributes\<close>

record FileAttr =
  f_size :: u64
  f_blocks :: u64
  f_atime :: SystemTime
  f_mtime :: SystemTime
  f_ctime :: SystemTime
  f_kind :: FuseFileType
  f_perm :: u16
  f_nlink :: u32
  f_uid :: u32
  f_gid :: u32
  f_rdev :: u32
  f_blksize :: u32

text \<open>A timestamp that must be there.\<close>

definition need_time :: "Timestamp option \<Rightarrow> fs_error + SystemTime" where
  "need_time ts = (case ts of None \<Rightarrow> Inl (Errno EACCES) | Some ts \<Rightarrow> grpc_to_system ts)"

definition attr_grpc_to_fuse3 :: "Attr \<Rightarrow> fs_error + FileAttr" where
  "attr_grpc_to_fuse3 attr =
     (case need_time (a_atime attr) of Inl e \<Rightarrow> Inl e | Inr at \<Rightarrow>
      case need_time (a_mtime attr) of Inl e \<Rightarrow> Inl e | Inr mt \<Rightarrow>
      case need_time (a_ctime attr) of Inl e \<Rightarrow> Inl e | Inr ct \<Rightarrow>
        Inr \<lparr>f_size = a_size attr, f_blocks = a_blocks attr, f_atime = at, f_mtime = mt, f_ctime = ct,
             f_kind = filetype_grpc_to_fuse3 (a_kind attr), f_perm = ucast (a_perm attr),
             f_nlink = a_nlink attr, f_uid = a_uid attr, f_gid = a_gid attr, f_rdev = a_rdev attr,
             f_blksize = a_blksize attr\<rparr>)"

text \<open>What the source reads from \<open>std::fs::Metadata\<close>.\<close>

record Metadata =
  m_len :: u64
  m_blocks :: u64
  m_atime :: i64
  m_mtime :: i64
  m_ctime :: i64
  m_mode :: u32
  m_nlink :: u64
  m_uid :: u32
  m_gid :: u32
  m_rdev :: u64
  m_blksize :: u64

definition metadata_to_grpc :: "Metadata \<Rightarrow> fs_error + Attr" where
  "metadata_to_grpc meta = (case std_to_grpc (m_mode meta) of
      Inl e \<Rightarrow> Inl e
    | Inr kind \<Rightarrow> Inr \<lparr>a_size = m_len meta, a_blocks = m_blocks meta,
        a_atime = Some \<lparr>seconds = m_atime meta, nanos = 0\<rparr>,
        a_mtime = Some \<lparr>seconds = m_mtime meta, nanos = 0\<rparr>,
        a_ctime = Some \<lparr>seconds = m_ctime meta, nanos = 0\<rparr>,
        a_kind = kind, a_perm = m_mode meta AND 0x1FF, a_nlink = ucast (m_nlink meta),
        a_uid = m_uid meta, a_gid = m_gid meta, a_rdev = ucast (m_rdev meta), a_flag = 0,
        a_blksize = ucast (m_blksize meta)\<rparr>)"

section \<open>Settable attributes\<close>

record FuseTimestamp =
  sec :: i64
  nsec :: u32

record SetAttr =
  set_mode :: "u32 option"
  set_uid :: "u32 option"
  set_gid :: "u32 option"
  set_size :: "u64 option"
  set_lock_owner :: "u64 option"
  set_atime :: "FuseTimestamp option"
  set_mtime :: "FuseTimestamp option"
  set_ctime :: "FuseTimestamp option"

definition time_to_grpc :: "FuseTimestamp \<Rightarrow> Timestamp" where
  "time_to_grpc ts = \<lparr>seconds = sec ts, nanos = nsec ts\<rparr>"

definition set_attr_fuse3_to_grpc :: "SetAttr \<Rightarrow> SettableAttr" where
  "set_attr_fuse3_to_grpc attr = \<lparr>s_mode = set_mode attr, s_uid = set_uid attr, s_gid = set_gid attr,
     s_size = set_size attr, s_lock_owner = set_lock_owner attr,
     s_atime = map_option time_to_grpc (set_atime attr),
     s_mtime = map_option time_to_grpc (set_mtime attr),
     s_ctime = map_option time_to_grpc (set_ctime attr)\<rparr>"

section \<open>Facts\<close>

text \<open>The seven types are the seven values of the type bits that the kernel uses.\<close>

definition known_type :: "u32 \<Rightarrow> bool" where
  "known_type mode \<longleftrightarrow> mode AND s_ifmt \<in> {0x1000, 0x2000, 0x4000, 0x6000, 0x8000, 0xA000, 0xC000}"

lemma std_to_grpc_known: "(\<exists>k. std_to_grpc mode = Inr k) \<longleftrightarrow> known_type mode"
  by (auto simp: std_to_grpc_def file_tests known_type_def)

lemma std_to_grpc_fuse:
  assumes "known_type mode"
  obtains k where "std_to_grpc mode = Inr k"
    and "(mode AND 0xF000, filetype_grpc_to_fuse3 k) \<in> {(0x1000, FNamedPipe), (0x2000, FCharDevice),
      (0x4000, FDirectory), (0x6000, FBlockDevice), (0x8000, FRegularFile), (0xA000, FSymlink), (0xC000, FSocket)}"
  using assms by (auto simp: known_type_def std_to_grpc_def file_tests s_ifmt_def)

lemma uint_of_sint: "uint (s :: i64) = (if sint s < 0 then sint s + 2 ^ 64 else sint s)"
proof -
  have eq: "uint s = sint s mod 2 ^ 64" by (simp add: uint_sint take_bit_eq_mod)
  have b: "sint s < 2 ^ 63" "- (2 ^ 63) \<le> sint s" using sint_less [of s] sint_greater_eq [of s] by simp_all
  show ?thesis
  proof (cases "sint s < 0")
    case True
    have "sint s mod 2 ^ 64 = (sint s + 2 ^ 64) mod 2 ^ 64" by simp
    also have "\<dots> = sint s + 2 ^ 64" using True b by (intro mod_pos_pos_trivial) auto
    finally show ?thesis using True eq by simp
  next
    case False
    with b have "sint s mod 2 ^ 64 = sint s" by (intro mod_pos_pos_trivial) auto
    with False eq show ?thesis by simp
  qed
qed

lemma grpc_to_system_nonneg:
  assumes "0 \<le> sint s"
  shows "grpc_to_system \<lparr>seconds = s, nanos = 0\<rparr> = Inr \<lparr>tv_sec = sint s, tv_nsec = 0\<rparr>"
proof -
  have "sint s < 2 ^ 63" using sint_less [of s] by simp
  moreover have "int (unat s) = sint s" using uint_of_sint [of s] assms by simp
  ultimately show ?thesis
    by (simp add: grpc_to_system_def add_duration_def unix_epoch_def duration_from_secs_def
        duration_from_nanos_def Let_def)
qed

lemma grpc_to_system_neg:
  assumes "sint (seconds ts) < 0"
  shows "grpc_to_system ts = Inl Panicked"
proof -
  have "int (unat (seconds ts)) = sint (seconds ts) + 2 ^ 64" using uint_of_sint [of "seconds ts"] assms by simp
  moreover have "- (2 ^ 63) \<le> sint (seconds ts)" using sint_greater_eq [of "seconds ts"] by simp
  ultimately show ?thesis
    by (simp add: grpc_to_system_def add_duration_def unix_epoch_def duration_from_secs_def Let_def)
qed

section \<open>Properties of the conversions\<close>

text \<open>
  Property C30. What the client shows of a file is what the server read: for metadata with a known file
  type and times not before 1970, converting to the message and then to the FUSE attribute succeeds,
  gives the kind that the type bits of the mode stand for, keeps size, blocks, owner, group and times,
  keeps the nine permission bits, and cuts the link count, device and block size to 32 bits.
\<close>

theorem attr_end_to_end:
  assumes "known_type (m_mode meta)"
    and "0 \<le> sint (m_atime meta)" and "0 \<le> sint (m_mtime meta)" and "0 \<le> sint (m_ctime meta)"
  shows "\<exists>attr kind. metadata_to_grpc meta = Inr attr \<and>
    (m_mode meta AND 0xF000, kind) \<in> {(0x1000, FNamedPipe), (0x2000, FCharDevice), (0x4000, FDirectory),
      (0x6000, FBlockDevice), (0x8000, FRegularFile), (0xA000, FSymlink), (0xC000, FSocket)} \<and>
    attr_grpc_to_fuse3 attr = Inr
      \<lparr>f_size = m_len meta, f_blocks = m_blocks meta,
       f_atime = \<lparr>tv_sec = sint (m_atime meta), tv_nsec = 0\<rparr>,
       f_mtime = \<lparr>tv_sec = sint (m_mtime meta), tv_nsec = 0\<rparr>,
       f_ctime = \<lparr>tv_sec = sint (m_ctime meta), tv_nsec = 0\<rparr>,
       f_kind = kind, f_perm = ucast (m_mode meta) AND 0x1FF,
       f_nlink = ucast (m_nlink meta), f_uid = m_uid meta, f_gid = m_gid meta,
       f_rdev = ucast (m_rdev meta), f_blksize = ucast (m_blksize meta)\<rparr>"
proof -
  obtain k where k: "std_to_grpc (m_mode meta) = Inr k"
    and t: "(m_mode meta AND 0xF000, filetype_grpc_to_fuse3 k) \<in> {(0x1000, FNamedPipe), (0x2000, FCharDevice),
      (0x4000, FDirectory), (0x6000, FBlockDevice), (0x8000, FRegularFile), (0xA000, FSymlink), (0xC000, FSocket)}"
    using std_to_grpc_fuse [OF assms(1)] .
  have "ucast (m_mode meta AND 0x1FF) = (ucast (m_mode meta) AND 0x1FF :: u16)"
    by (simp add: unsigned_and_eq)
  with k assms(2-4) show ?thesis
    by (intro exI [of _ "projr (metadata_to_grpc meta)"] exI [of _ "filetype_grpc_to_fuse3 k"] conjI t)
      (simp_all add: metadata_to_grpc_def attr_grpc_to_fuse3_def need_time_def grpc_to_system_nonneg)
qed

definition sample_meta :: "i64 \<Rightarrow> Metadata" where
  "sample_meta t = \<lparr>m_len = 10, m_blocks = 8, m_atime = t, m_mtime = 2, m_ctime = 3, m_mode = 0x81A4,
     m_nlink = 1, m_uid = 1000, m_gid = 1000, m_rdev = 0, m_blksize = 4096\<rparr>"

theorem attr_end_to_end_witness:
  "\<exists>attr. metadata_to_grpc (sample_meta 1) = Inr attr \<and>
     map_sum (\<lambda>x. x) f_kind (attr_grpc_to_fuse3 attr) = Inr FRegularFile \<and>
     map_sum (\<lambda>x. x) f_perm (attr_grpc_to_fuse3 attr) = Inr 0x1A4"
  using attr_end_to_end [of "sample_meta 1"] by (auto simp: sample_meta_def known_type_def s_ifmt_def)

text \<open>
  Property C35. A file dated before 1970 makes the client panic: the negative second count is read as a
  huge duration, and adding it to the epoch overflows. It is enough that one of the three times is
  before 1970, and nothing else in a message of the server makes this conversion fail.
\<close>

theorem times_before_1970_panic:
  assumes "known_type (m_mode meta)"
  shows "\<exists>attr. metadata_to_grpc meta = Inr attr \<and>
    (attr_grpc_to_fuse3 attr = Inl Panicked \<longleftrightarrow>
       sint (m_atime meta) < 0 \<or> sint (m_mtime meta) < 0 \<or> sint (m_ctime meta) < 0) \<and>
    (\<forall>e. attr_grpc_to_fuse3 attr = Inl e \<longrightarrow> e = Panicked)"
proof -
  obtain kind where k: "std_to_grpc (m_mode meta) = Inr kind" using std_to_grpc_known assms(1) by blast
  have t: "need_time (Some \<lparr>seconds = s, nanos = 0\<rparr>) =
      (if sint s < 0 then Inl Panicked else Inr \<lparr>tv_sec = sint s, tv_nsec = 0\<rparr>)" for s :: i64
    by (simp add: need_time_def grpc_to_system_neg grpc_to_system_nonneg)
  show ?thesis by (simp add: metadata_to_grpc_def attr_grpc_to_fuse3_def k t)
qed

theorem times_before_1970_panic_witness:
  "\<exists>attr. metadata_to_grpc (sample_meta (-1)) = Inr attr \<and> attr_grpc_to_fuse3 attr = Inl Panicked"
  using times_before_1970_panic [of "sample_meta (-1)"] by (auto simp: sample_meta_def known_type_def s_ifmt_def)

end
