(* ===== verification/Fs_Path.thy ===== *)
theory Fs_Path
  imports Fs_Conv
begin

text \<open>
  Paths as \<open>src/distfs/src/server.rs\<close> uses them, and \<open>Server::real_path\<close>, which is to keep every path of a
  client below the served directory. A \<open>PathBuf\<close> is the list of its components (two paths are equal
  in \<open>std::path\<close> exactly when their components are; trailing slashes are not kept). \<open>Prefix\<close> components exist on Windows only.
\<close>

section \<open>Paths\<close>

datatype component = RootDir | CurDir | ParentDir | Normal string

type_synonym path = "component list"

text \<open>The pieces of a path between its slashes.\<close>

fun split_slash :: "string \<Rightarrow> string list" where
  "split_slash [] = [[]]"
| "split_slash (c # cs) =
     (if c = CHR ''/'' then [] # split_slash cs
      else (case split_slash cs of [] \<Rightarrow> [[c]] | p # ps \<Rightarrow> (c # p) # ps))"

definition piece :: "string \<Rightarrow> component option" where
  "piece p = (if p = [] \<or> p = ''.'' then None else if p = ''..'' then Some ParentDir else Some (Normal p))"

definition is_absolute :: "string \<Rightarrow> bool" where
  "is_absolute s \<longleftrightarrow> s \<noteq> [] \<and> hd s = CHR ''/''"

text \<open>
  \<open>Path::components\<close>: a leading slash is the root, empty pieces and dots are dropped, except that a
  relative path that starts with a dot starts with the current directory.
\<close>

definition components :: "string \<Rightarrow> path" where
  "components s =
     (if is_absolute s then [RootDir] else if hd (split_slash s) = ''.'' then [CurDir] else []) @
     List.map_filter piece (split_slash s)"

text \<open>\<open>Path::join\<close>: an absolute path replaces the whole, otherwise its components are appended.\<close>

definition path_join :: "path \<Rightarrow> string \<Rightarrow> path" where
  "path_join p s = (if is_absolute s then components s else p @ List.map_filter piece (split_slash s))"

text \<open>\<open>Path::parent\<close>.\<close>

definition path_parent :: "path \<Rightarrow> path option" where
  "path_parent p = (if p = [] \<or> last p = RootDir then None else Some (butlast p))"

section \<open>Real paths\<close>

definition real_step :: "path \<Rightarrow> path \<Rightarrow> component \<Rightarrow> path" where
  "real_step root parent c = (case c of
      RootDir \<Rightarrow> root
    | ParentDir \<Rightarrow> if parent = root then parent
                  else (case path_parent parent of None \<Rightarrow> root | Some p \<Rightarrow> p)
    | CurDir \<Rightarrow> parent
    | Normal n \<Rightarrow> parent @ [Normal n])"

definition real_path_of :: "path \<Rightarrow> path \<Rightarrow> path" where
  "real_path_of root cs = foldl (real_step root) root cs"

definition real_path :: "path \<Rightarrow> string \<Rightarrow> path" where
  "real_path root s = real_path_of root (components s)"

text \<open>The entry \<open>name\<close> of the directory \<open>parent\<close>, as most operations form it.\<close>

definition child_path :: "path \<Rightarrow> string \<Rightarrow> string \<Rightarrow> path" where
  "child_path root parent name = path_join (real_path root parent) name"

section \<open>Reference: resolving against a virtual root\<close>

text \<open>
  What a client's path means when the served directory is the root of the world: names are pushed on
  a stack, the parent of the root is the root.
\<close>

fun resolve_step :: "string list \<Rightarrow> component \<Rightarrow> string list" where
  "resolve_step st RootDir = []"
| "resolve_step st CurDir = st"
| "resolve_step st ParentDir = butlast st"
| "resolve_step st (Normal n) = st @ [n]"

definition resolve_path :: "path \<Rightarrow> string list" where
  "resolve_path cs = foldl resolve_step [] cs"

text \<open>What \<open>canonicalize\<close> returns: an absolute path of names.\<close>

definition canonical :: "path \<Rightarrow> bool" where
  "canonical root \<longleftrightarrow> (\<exists>ns. root = RootDir # map Normal ns)"

definition plain_name :: "string \<Rightarrow> bool" where
  "plain_name n \<longleftrightarrow> n \<noteq> [] \<and> n \<noteq> ''.'' \<and> n \<noteq> ''..'' \<and> CHR ''/'' \<notin> set n"

lemma real_step_resolve:
  assumes "canonical root"
  shows "real_step root (root @ map Normal st) c = root @ map Normal (resolve_step st c)"
proof (cases c)
  case ParentDir
  show ?thesis
  proof (cases "st = []")
    case True
    with ParentDir show ?thesis by (simp add: real_step_def)
  next
    case False
    then obtain ys y where "st = ys @ [y]" by (meson rev_exhaust)
    with ParentDir show ?thesis by (simp add: real_step_def path_parent_def butlast_append)
  qed
qed (simp_all add: real_step_def)

lemma real_path_of_resolve:
  assumes "canonical root"
  shows "foldl (real_step root) (root @ map Normal st) cs = root @ map Normal (foldl resolve_step st cs)"
  using assms by (induction cs arbitrary: st) (simp_all add: real_step_resolve)

lemma real_path_eq: "canonical root \<Longrightarrow> real_path root s = root @ map Normal (resolve_path (components s))"
  using real_path_of_resolve [of root "[]"] by (simp add: real_path_def real_path_of_def resolve_path_def)

lemma resolve_names: "resolve_path (RootDir # map Normal ns) = ns"
proof -
  have "foldl resolve_step st (map Normal ns) = st @ ns" for st
    by (induction ns arbitrary: st) simp_all
  then show ?thesis by (simp add: resolve_path_def)
qed

lemma split_slash_plain: "CHR ''/'' \<notin> set n \<Longrightarrow> split_slash n = [n]"
  by (induction n) auto

lemma child_path_plain:
  assumes "plain_name n"
  shows "child_path root parent n = real_path root parent @ [Normal n]"
  using assms
  by (auto simp: child_path_def path_join_def plain_name_def is_absolute_def split_slash_plain
      List.map_filter_def piece_def) (metis list.set_sel(1))

section \<open>Properties of paths\<close>

text \<open>
  Property C24. \<open>real_path\<close> resolves a client's path against the served directory: for a canonical root and
  every string, the result is the root followed by the names left after resolving dots, parents and
  roots, where the parent of the served directory is itself. In particular it lies below the root.
\<close>

theorem real_path_resolves:
  assumes "canonical root"
  shows "real_path root s = root @ map Normal (resolve_path (components s)) \<and> prefix root (real_path root s)"
  using real_path_eq [OF assms] by simp

definition srv_root :: path where
  "srv_root = [RootDir, Normal ''srv'', Normal ''fs'']"

lemma srv_root_canonical: "canonical srv_root"
  by (auto simp: canonical_def srv_root_def intro!: exI [of _ "[''srv'', ''fs'']"])

theorem real_path_resolves_witness:
  "real_path srv_root ''../a/./b/../c'' = srv_root @ [Normal ''a'', Normal ''c'']"
  using real_path_resolves [OF srv_root_canonical, of "''../a/./b/../c''"]
  by (simp add: resolve_path_def components_def is_absolute_def List.map_filter_def piece_def)

text \<open>
  Property C32. The entry of a directory stays inside as long as the name is a plain file name: then it
  is the directory's real path with the name appended.
\<close>

theorem child_path_contained:
  assumes "canonical root" and "plain_name n"
  shows "child_path root parent n = real_path root parent @ [Normal n] \<and> prefix root (child_path root parent n)"
  using child_path_plain [OF assms(2)] real_path_eq [OF assms(1), of parent] by simp

theorem child_path_contained_witness:
  "child_path srv_root ''/docs/..'' ''x.txt'' = srv_root @ [Normal ''x.txt'']"
  using child_path_contained [OF srv_root_canonical, of "''x.txt''" "''/docs/..''"]
  by (simp add: plain_name_def real_path_eq [OF srv_root_canonical] resolve_path_def components_def
      is_absolute_def List.map_filter_def piece_def)

text \<open>
  Property C34. Nothing enforces that: an absolute name replaces the served directory altogether, and the
  name \<open>..\<close> leads above it. The operations that take a parent and a name (lookup, mkdir, unlink, symlink,
  rmdir, rename, create) form their path this way.
\<close>

theorem child_path_escapes:
  "child_path root parent (CHR ''/'' # s) = components (CHR ''/'' # s) \<and>
   child_path root ''/'' ''..'' = root @ [ParentDir]"
  by (simp add: child_path_def path_join_def is_absolute_def real_path_def real_path_of_def components_def
      List.map_filter_def piece_def real_step_def)

text \<open>
  A path that is already real is not kept: \<open>real_path\<close> of the root followed by names
  re-roots the root's own names, so it differs from its argument unless the root is \<open>/\<close>.
  \<open>set_attr_impl\<close> does this with the stored path of an open file.
\<close>

lemma real_path_twice:
  assumes "root = RootDir # map Normal rs"
  shows "real_path_of root (root @ map Normal ns) = root @ map Normal (rs @ ns) \<and>
    (real_path_of root (root @ map Normal ns) = root @ map Normal ns \<longleftrightarrow> rs = [])"
proof -
  have "canonical root" using assms by (auto simp: canonical_def)
  then have "real_path_of root (root @ map Normal ns) = root @ map Normal (resolve_path (root @ map Normal ns))"
    using real_path_of_resolve [of root "[]" "root @ map Normal ns"]
    by (simp add: real_path_of_def resolve_path_def del: foldl_append)
  also have "resolve_path (root @ map Normal ns) = rs @ ns"
    using resolve_names [of "rs @ ns"] assms by simp
  finally show ?thesis by (auto simp: map_eq_append_conv)
qed

lemma real_path_twice_sample:
  "real_path_of srv_root (srv_root @ [Normal ''x'']) = srv_root @ [Normal ''srv'', Normal ''fs'', Normal ''x'']"
  using real_path_twice [of srv_root "[''srv'', ''fs'']" "[''x'']"] by (simp add: srv_root_def)

end
