(* ===== verification/Fs_Locks.thy ===== *)
theory Fs_Locks
  imports Fs_Conv
begin

text \<open>
  The locks of the file server: the \<open>tokio::sync::RwLock\<close>s around its two tables and around every entry of
  them. A request is a task on the state and the locks; a guard is held from the statement that takes it
  to the end of its block. While a request runs no other task makes a step, so a lock that cannot be had
  is never released: the request waits for good, its guards stay held, and it has a place in the queue
  of that lock.
\<close>

named_theorems no_wait_intros \<open>programs that never wait\<close>
named_theorems runs_as_intros \<open>tasks that run like a program without locks\<close>

section \<open>Locks\<close>

datatype lock_id = FhTable | DhTable | FhLock u64 | DhLock u64

record rw_lock =
  readers :: nat
  writer :: bool
  waiting :: bool

type_synonym locks = "lock_id \<Rightarrow> rw_lock"

definition no_locks :: locks where
  "no_locks = (\<lambda>_. \<lparr>readers = 0, writer = False, waiting = False\<rparr>)"

text \<open>The lock is fair: nobody overtakes a waiting task.\<close>

definition may_read :: "rw_lock \<Rightarrow> bool" where
  "may_read l \<longleftrightarrow> \<not> writer l \<and> \<not> waiting l"

definition may_write :: "rw_lock \<Rightarrow> bool" where
  "may_write l \<longleftrightarrow> readers l = 0 \<and> \<not> writer l \<and> \<not> waiting l"

section \<open>Tasks\<close>

type_synonym ('s, 'r) task = "('s \<times> locks, fs_error, 'r) prog"

text \<open>A step that takes no lock.\<close>

definition act :: "('s, fs_error, 'r) prog \<Rightarrow> ('s, 'r) task" where
  "act m = zoom fst (\<lambda>s x. (s, snd x)) m"

text \<open>A block that begins with \<open>lock.read().await\<close>, and one that begins with \<open>lock.write().await\<close>.\<close>

definition read_guard :: "lock_id \<Rightarrow> ('s, 'r) task \<Rightarrow> ('s, 'r) task" where
  "read_guard l body = (\<lambda>(s, L).
     if may_read (L l)
     then (case body (s, L(l := (L l)\<lparr>readers := Suc (readers (L l))\<rparr>)) of (r, t, K) \<Rightarrow>
            (r, t, if r = Inl Deadlock then K else K(l := (K l)\<lparr>readers := readers (K l) - 1\<rparr>)))
     else (Inl Deadlock, s, L(l := (L l)\<lparr>waiting := True\<rparr>)))"

definition write_guard :: "lock_id \<Rightarrow> ('s, 'r) task \<Rightarrow> ('s, 'r) task" where
  "write_guard l body = (\<lambda>(s, L).
     if may_write (L l)
     then (case body (s, L(l := (L l)\<lparr>writer := True\<rparr>)) of (r, t, K) \<Rightarrow>
            (r, t, if r = Inl Deadlock then K else K(l := (K l)\<lparr>writer := False\<rparr>)))
     else (Inl Deadlock, s, L(l := (L l)\<lparr>waiting := True\<rparr>)))"

text \<open>A request that finds every lock free.\<close>

definition request :: "('s, 'r) task \<Rightarrow> ('s, fs_error, 'r) prog" where
  "request m = (\<lambda>s. case m (s, no_locks) of (r, t, _) \<Rightarrow> (r, t))"

section \<open>Programs that never wait\<close>

definition no_wait :: "('s, fs_error, 'r) prog \<Rightarrow> bool" where
  "no_wait m \<longleftrightarrow> (\<forall>s. fst (m s) \<noteq> Inl Deadlock)"

lemma no_waitD: "no_wait m \<Longrightarrow> m s = (r, t) \<Longrightarrow> r \<noteq> Inl Deadlock"
  by (metis no_wait_def fst_conv)

lemma no_wait_basic [no_wait_intros]:
  "no_wait (ok x)" "no_wait (gets f)" "no_wait (modify g)" "e \<noteq> Deadlock \<Longrightarrow> no_wait (fail e)"
  "r \<noteq> Inl Deadlock \<Longrightarrow> no_wait (of_sum r)" "e \<noteq> Deadlock \<Longrightarrow> no_wait (of_opt e v)"
  by (auto simp: no_wait_def of_opt_def split: option.split)

lemma no_wait_bindE [no_wait_intros]:
  "no_wait m \<Longrightarrow> (\<And>x. no_wait (f x)) \<Longrightarrow> no_wait (bindE m f)"
  unfolding no_wait_def bindE_def by (auto split: prod.split sum.split) (metis fst_conv)

lemma no_wait_if [no_wait_intros]:
  "(b \<Longrightarrow> no_wait m) \<Longrightarrow> (\<not> b \<Longrightarrow> no_wait n) \<Longrightarrow> no_wait (if b then m else n)"
  by simp

lemma no_wait_prod [no_wait_intros]: "(\<And>x y. no_wait (f x y)) \<Longrightarrow> no_wait (case p of (x, y) \<Rightarrow> f x y)"
  by (cases p) simp

lemma no_wait_option [no_wait_intros]:
  "no_wait m \<Longrightarrow> (\<And>x. no_wait (f x)) \<Longrightarrow> no_wait (case v of None \<Rightarrow> m | Some x \<Rightarrow> f x)"
  by (cases v) simp_all

section \<open>Tasks that find their locks free\<close>

text \<open>
  From the locks \<open>L\<close> the task does what the program without locks does, and gives every lock back.
\<close>

definition runs_as :: "locks \<Rightarrow> ('s, 'r) task \<Rightarrow> ('s, fs_error, 'r) prog \<Rightarrow> bool" where
  "runs_as L T m \<longleftrightarrow> (\<forall>s. T (s, L) = (fst (m s), snd (m s), L))"

lemma runs_as_act [runs_as_intros]: "runs_as L (act m) m"
  by (simp add: runs_as_def act_def zoom_def split: prod.split)

lemma runs_as_ok [runs_as_intros]: "runs_as L (ok x) (ok x)"
  by (simp add: runs_as_def)

lemma runs_as_fail [runs_as_intros]: "runs_as L (fail x) (fail x)"
  by (simp add: runs_as_def)

lemma runs_as_bindE [runs_as_intros]:
  "runs_as L T m \<Longrightarrow> (\<And>x. runs_as L (F x) (f x)) \<Longrightarrow> runs_as L (bindE T F) (bindE m f)"
  by (auto simp: runs_as_def bindE_def split: prod.split sum.split)

lemma runs_as_read [runs_as_intros]:
  assumes "may_read (L l)" and "runs_as (L(l := (L l)\<lparr>readers := Suc (readers (L l))\<rparr>)) T m" and "no_wait m"
  shows "runs_as L (read_guard l T) m"
  using assms by (auto simp: runs_as_def read_guard_def no_wait_def)

lemma runs_as_write [runs_as_intros]:
  assumes "may_write (L l)" and "runs_as (L(l := (L l)\<lparr>writer := True\<rparr>)) T m" and "no_wait m"
  shows "runs_as L (write_guard l T) m"
  using assms by (auto simp: runs_as_def write_guard_def no_wait_def may_write_def)

lemma runs_as_prod [runs_as_intros]:
  "(\<And>x y. runs_as L (F x y) (f x y)) \<Longrightarrow> runs_as L (case p of (x, y) \<Rightarrow> F x y) (case p of (x, y) \<Rightarrow> f x y)"
  by (cases p) simp

lemma runs_as_option [runs_as_intros]:
  "runs_as L T m \<Longrightarrow> (\<And>x. runs_as L (F x) (f x)) \<Longrightarrow>
    runs_as L (case v of None \<Rightarrow> T | Some x \<Rightarrow> F x) (case v of None \<Rightarrow> m | Some x \<Rightarrow> f x)"
  by (cases v) simp_all

lemma runs_as_if [runs_as_intros]:
  "(b \<Longrightarrow> runs_as L T m) \<Longrightarrow> (\<not> b \<Longrightarrow> runs_as L T' m') \<Longrightarrow> runs_as L (if b then T else T') (if b then m else m')"
  by simp

lemma free_locks [simp]: "may_read (no_locks l)" "may_write (no_locks l)"
  by (simp_all add: no_locks_def may_read_def may_write_def)

lemma held_elsewhere [simp]: "l \<noteq> k \<Longrightarrow> (L(k := x)) l = L l"
  by simp

lemma request_runs: "runs_as no_locks T m \<Longrightarrow> request T = m"
  by (rule ext) (simp add: request_def runs_as_def)

section \<open>Tasks that wait\<close>

lemma act_run: "act m (s, L) = (fst (m s), snd (m s), L)"
  using runs_as_act [of L m] by (simp add: runs_as_def)

lemma read_guard_waits: "\<not> may_read (L l) \<Longrightarrow> fst (read_guard l T (s, L)) = Inl Deadlock"
  by (simp add: read_guard_def)

lemma write_guard_waits: "\<not> may_write (L l) \<Longrightarrow> fst (write_guard l T (s, L)) = Inl Deadlock"
  by (simp add: write_guard_def)

text \<open>A guard whose block waits stays held.\<close>

lemma read_guard_stuck:
  assumes "may_read (L l)" and "T (s, L(l := (L l)\<lparr>readers := Suc (readers (L l))\<rparr>)) = (Inl Deadlock, t, K)"
  shows "read_guard l T (s, L) = (Inl Deadlock, t, K)"
  using assms by (simp add: read_guard_def)

lemma write_guard_stuck:
  assumes "may_write (L l)" and "T (s, L(l := (L l)\<lparr>writer := True\<rparr>)) = (Inl Deadlock, t, K)"
  shows "write_guard l T (s, L) = (Inl Deadlock, t, K)"
  using assms by (simp add: write_guard_def)

end
