(* ===== verification/Os_Str.thy ===== *)
theory Os_Str
  imports Prelude
begin

text \<open>
  \<open>OsStr::to_string_lossy\<close>, which the client of the file system applies to every path and name before
  it sends them. A string is the list of its bytes; a step of the decoder reads one code point or finds
  a maximal invalid piece, which is replaced by U+FFFD.
\<close>

section \<open>The decoder\<close>

definition byte :: "char \<Rightarrow> nat" where
  "byte c = of_char c"

text \<open>The byte at a position, 0 beyond the end.\<close>

definition safe_get :: "string \<Rightarrow> nat \<Rightarrow> nat" where
  "safe_get xs i = (if i < length xs then byte (xs ! i) else 0)"

definition cont_byte :: "nat \<Rightarrow> bool" where
  "cont_byte b \<longleftrightarrow> 0x80 \<le> b \<and> b \<le> 0xBF"

text \<open>Which second bytes may follow a leading byte of a three or four byte sequence.\<close>

definition second_ok :: "nat \<Rightarrow> nat \<Rightarrow> bool" where
  "second_ok b c \<longleftrightarrow>
     (if b = 0xE0 then 0xA0 \<le> c \<and> c \<le> 0xBF
      else if b = 0xED then 0x80 \<le> c \<and> c \<le> 0x9F
      else if b = 0xF0 then 0x90 \<le> c \<and> c \<le> 0xBF
      else if b = 0xF4 then 0x80 \<le> c \<and> c \<le> 0x8F
      else cont_byte c)"

text \<open>How many bytes the next step consumes, and whether they are a code point.\<close>

definition utf8_scan :: "string \<Rightarrow> nat \<times> bool" where
  "utf8_scan xs =
     (let b = safe_get xs 0; c = safe_get xs 1; d = safe_get xs 2; e = safe_get xs 3
      in if b < 0x80 then (1, True)
         else if 0xC2 \<le> b \<and> b \<le> 0xDF then (if cont_byte c then (2, True) else (1, False))
         else if 0xE0 \<le> b \<and> b \<le> 0xEF then
           (if \<not> second_ok b c then (1, False) else if cont_byte d then (3, True) else (2, False))
         else if 0xF0 \<le> b \<and> b \<le> 0xF4 then
           (if \<not> second_ok b c then (1, False) else if \<not> cont_byte d then (2, False)
            else if cont_byte e then (4, True) else (3, False))
         else (1, False))"

definition replacement :: string where
  "replacement = [char_of (0xEF :: nat), char_of (0xBF :: nat), char_of (0xBD :: nat)]"

lemma utf8_scan_pos [simp]: "0 < fst (utf8_scan xs)"
  by (simp add: utf8_scan_def Let_def)

function to_string_lossy :: "string \<Rightarrow> string" where
  "to_string_lossy xs =
     (if xs = [] then []
      else (let n = fst (utf8_scan xs)
            in (if snd (utf8_scan xs) then take n xs else replacement) @ to_string_lossy (drop n xs)))"
  by pat_completeness auto
termination
  by (relation "measure length") auto

declare to_string_lossy.simps [simp del]

function utf8_valid :: "string \<Rightarrow> bool" where
  "utf8_valid xs = (if xs = [] then True else snd (utf8_scan xs) \<and> utf8_valid (drop (fst (utf8_scan xs)) xs))"
  by pat_completeness auto
termination
  by (relation "measure length") auto

declare utf8_valid.simps [simp del]

section \<open>Facts\<close>

lemma to_string_lossy_Nil [simp]: "to_string_lossy [] = []"
  by (subst to_string_lossy.simps) simp

lemma utf8_valid_Nil [simp]: "utf8_valid []"
  by (subst utf8_valid.simps) simp

text \<open>A continuation byte is not the zero beyond the end, so a code point lies within the string.\<close>

lemma safe_get_inside: "0x80 \<le> safe_get xs i \<Longrightarrow> i < length xs"
  by (auto simp: safe_get_def split: if_splits)

lemma second_ok_ge: "second_ok b c \<Longrightarrow> 0x80 \<le> c"
  by (auto simp: second_ok_def cont_byte_def split: if_splits)

lemma utf8_scan_inside:
  assumes "xs \<noteq> []" and "snd (utf8_scan xs)"
  shows "fst (utf8_scan xs) \<le> length xs"
proof -
  let ?b = "safe_get xs 0" and ?c = "safe_get xs 1" and ?d = "safe_get xs 2" and ?e = "safe_get xs 3"
  have 1: "1 \<le> length xs" using assms(1) by (cases xs) simp_all
  have 2: "2 \<le> length xs" if "cont_byte ?c \<or> second_ok ?b ?c"
    using that second_ok_ge [of ?b ?c] safe_get_inside [of xs 1] by (auto simp: cont_byte_def)
  have 3: "3 \<le> length xs" if "cont_byte ?d" using that safe_get_inside [of xs 2] by (auto simp: cont_byte_def)
  have 4: "4 \<le> length xs" if "cont_byte ?e" using that safe_get_inside [of xs 3] by (auto simp: cont_byte_def)
  show ?thesis using assms(2) 1 2 3 4 by (auto simp: utf8_scan_def Let_def split: if_splits)
qed

text \<open>What a step finds depends only on the bytes it consumes.\<close>

lemma safe_get_prefix: "i < n \<Longrightarrow> n \<le> length xs \<Longrightarrow> safe_get (take n xs @ ys) i = safe_get xs i"
  by (simp add: safe_get_def nth_append)

lemma utf8_scan_prefix:
  assumes "xs \<noteq> []" and "utf8_scan xs = (n, True)"
  shows "utf8_scan (take n xs @ ys) = (n, True)"
proof -
  have n: "0 < n" "n \<le> length xs" using utf8_scan_inside [OF assms(1)] utf8_scan_pos [of xs] assms(2) by auto
  have g: "safe_get (take n xs @ ys) i = safe_get xs i" if "i < n" for i using safe_get_prefix [OF that n(2)] .
  have "n \<in> {1, 2, 3, 4}" using assms(2) by (auto simp: utf8_scan_def Let_def split: if_splits)
  then show ?thesis using assms(2) g [of 0] g [of 1] g [of 2] g [of 3] n(1)
    by (auto simp: utf8_scan_def Let_def split: if_splits)
qed

lemma utf8_valid_chunk:
  assumes "xs \<noteq> []" and "utf8_scan xs = (n, True)"
  shows "utf8_valid (take n xs @ ys) = utf8_valid ys"
proof -
  have n: "0 < n" "n \<le> length xs" using utf8_scan_inside [OF assms(1)] utf8_scan_pos [of xs] assms(2) by auto
  have "take n xs @ ys \<noteq> []" using n assms(1) by auto
  with utf8_scan_prefix [OF assms, of ys] n show ?thesis
    by (subst utf8_valid.simps) auto
qed

lemma utf8_scan_replacement: "utf8_scan replacement = (3, True)"
  by (simp add: utf8_scan_def replacement_def safe_get_def byte_def second_ok_def cont_byte_def Let_def)

lemma utf8_valid_replacement: "utf8_valid (replacement @ ys) = utf8_valid ys"
  using utf8_valid_chunk [OF _ utf8_scan_replacement, of ys] by (simp add: replacement_def)

lemma lossy_valid: "utf8_valid (to_string_lossy xs)"
proof (induction xs rule: to_string_lossy.induct)
  case (1 xs)
  show ?case
  proof (cases "xs = []")
    case False
    obtain n v where sc: "utf8_scan xs = (n, v)" by fastforce
    with 1 [OF False refl] False utf8_valid_chunk [OF False, of n] show ?thesis
      by (subst to_string_lossy.simps) (auto simp: utf8_valid_replacement)
  qed simp
qed

lemma lossy_keeps_valid: "utf8_valid xs \<Longrightarrow> to_string_lossy xs = xs"
proof (induction xs rule: to_string_lossy.induct)
  case (1 xs)
  show ?case
  proof (cases "xs = []")
    case False
    with 1(2) have "snd (utf8_scan xs)" "utf8_valid (drop (fst (utf8_scan xs)) xs)"
      by (subst (asm) utf8_valid.simps, simp)+
    with 1(1) [OF False refl] False show ?thesis by (subst to_string_lossy.simps) simp
  qed simp
qed

lemma ascii_valid: "list_all (\<lambda>c. byte c < 0x80) xs \<Longrightarrow> utf8_valid xs"
proof (induction xs)
  case (Cons c xs)
  then have "utf8_scan (c # xs) = (1, True)" by (simp add: utf8_scan_def safe_get_def)
  with Cons show ?case by (subst utf8_valid.simps) simp
qed simp

end
