(* ===== verification/Fs_Server.thy ===== *)
theory Fs_Server
  imports Fs_Path Fs_Locks Os_Str
begin

text \<open>
  The file server of \<open>src/distfs/src/server.rs\<close>: one definition per operation, with the operating system
  as a parameter. The system calls are programs on an abstract world \<open>'w\<close> (which also holds the position
  of every open file \<open>'f\<close>); those of \<open>std\<close> and \<open>tokio\<close> fail with an error that may carry an error number,
  those of \<open>nix\<close> fail with an error number. An operation that takes locks is a task of \<open>Fs_Locks\<close>, run
  as a request that finds all locks free; where it waits for a lock it holds itself the result is
  \<open>Deadlock\<close>.
\<close>

section \<open>The operating system\<close>

type_synonym io_error = "i32 option"

datatype owner_error = IoError io_error | NixError i32 | GroupNotFound string | UserNotFound string

record open_options =
  opt_create :: bool
  opt_append :: bool
  opt_write :: bool
  opt_read :: bool
  opt_mode :: "u32 option"

datatype seek_from = SeekStart u64 | SeekCurrent i64 | SeekEnd i64

text \<open>A directory entry with what \<open>file_type\<close> and \<open>metadata\<close> answer for it.\<close>

record dirent =
  d_name :: string
  d_type :: "io_error + u32"
  d_meta :: "io_error + Metadata"

record access_flags =
  x_ok :: bool
  r_ok :: bool
  w_ok :: bool

record ('f, 'w) os =
  os_metadata :: "path \<Rightarrow> ('w, io_error, Metadata) prog"
  os_set_owner :: "path \<Rightarrow> u32 \<Rightarrow> ('w, owner_error, unit) prog"
  os_set_group :: "path \<Rightarrow> u32 \<Rightarrow> ('w, owner_error, unit) prog"
  os_set_mtime :: "path \<Rightarrow> i64 \<Rightarrow> u32 \<Rightarrow> ('w, io_error, unit) prog"
  os_set_atime :: "path \<Rightarrow> i64 \<Rightarrow> u32 \<Rightarrow> ('w, io_error, unit) prog"
  os_set_permissions :: "path \<Rightarrow> u32 \<Rightarrow> ('w, io_error, unit) prog"
  os_mode_truncate :: "u32 \<Rightarrow> u32"
  os_mkdir :: "path \<Rightarrow> u32 \<Rightarrow> ('w, i32, unit) prog"
  os_unlink :: "path \<Rightarrow> ('w, i32, unit) prog"
  os_symlink :: "path \<Rightarrow> path \<Rightarrow> ('w, io_error, unit) prog"
  os_remove_dir :: "path \<Rightarrow> ('w, io_error, unit) prog"
  os_rename :: "path \<Rightarrow> path \<Rightarrow> ('w, io_error, unit) prog"
  os_read_dir :: "path \<Rightarrow> ('w, io_error, (io_error + dirent) list) prog"
  os_read_link :: "path \<Rightarrow> ('w, io_error, string) prog"
  os_access :: "path \<Rightarrow> access_flags \<Rightarrow> ('w, i32, unit) prog"
  os_open :: "open_options \<Rightarrow> path \<Rightarrow> ('w, io_error, 'f) prog"
  file_metadata :: "'f \<Rightarrow> ('w, io_error, Metadata) prog"
  file_set_len :: "'f \<Rightarrow> u64 \<Rightarrow> ('w, io_error, unit) prog"
  file_seek :: "'f \<Rightarrow> seek_from \<Rightarrow> ('w, io_error, u64) prog"
  file_read :: "'f \<Rightarrow> nat \<Rightarrow> ('w, io_error, u8 list) prog"
  file_write :: "'f \<Rightarrow> u8 list \<Rightarrow> ('w, io_error, nat) prog"
  file_flush :: "'f \<Rightarrow> ('w, io_error, unit) prog"
  file_fsync :: "'f \<Rightarrow> ('w, i32, unit) prog"
  file_fallocate_bits :: "i32 \<Rightarrow> bool"
  file_fallocate :: "'f \<Rightarrow> i32 \<Rightarrow> i64 \<Rightarrow> i64 \<Rightarrow> ('w, i32, unit) prog"
  file_copy_range :: "'f \<Rightarrow> i64 \<Rightarrow> 'f \<Rightarrow> i64 \<Rightarrow> u64 \<Rightarrow> ('w, i32, nat) prog"

section \<open>State\<close>

record DirEntry =
  e_kind :: Filetype
  e_name :: string
  e_offset :: i64
  e_attr :: "Attr option"
  e_entry_ttl_ms :: u64
  e_attr_ttl_ms :: u64

datatype Inner = InnerEntry DirEntry | InnerErrno i32

record Entry =
  inner :: "Inner option"

record 'f Server =
  root_path :: path
  fh :: "u64 \<rightharpoonup> 'f \<times> path"
  dh :: "u64 \<rightharpoonup> Entry list \<times> path"
  fh_src :: u64

record ('f, 'w) sys =
  server :: "'f Server"
  world :: 'w

type_synonym ('f, 'w, 'r) srv = "(('f, 'w) sys, fs_error, 'r) prog"

definition Server_new :: "path \<Rightarrow> 'f Server" where
  "Server_new canonical_root = \<lparr>root_path = canonical_root, fh = Map.empty, dh = Map.empty, fh_src = 0\<rparr>"

text \<open>System calls in an operation: \<open>raw_os_error().unwrap_or(EACCES)\<close>, and the error number itself.\<close>

definition io_call :: "('w, io_error, 'r) prog \<Rightarrow> ('f, 'w, 'r) srv" where
  "io_call m = zoom world (\<lambda>w s. s\<lparr>world := w\<rparr>) (map_err (\<lambda>e. Errno (unwrap_or e EACCES)) m)"

definition nix_call :: "('w, i32, 'r) prog \<Rightarrow> ('f, 'w, 'r) srv" where
  "nix_call m = zoom world (\<lambda>w s. s\<lparr>world := w\<rparr>) (map_err Errno m)"

definition root_of :: "('f, 'w, path) srv" where
  "root_of = gets (\<lambda>s. root_path (server s))"

definition real :: "string \<Rightarrow> ('f, 'w, path) srv" where
  "real p = bindE root_of (\<lambda>root. ok (real_path root p))"

definition child :: "string \<Rightarrow> string \<Rightarrow> ('f, 'w, path) srv" where
  "child parent name = bindE root_of (\<lambda>root. ok (child_path root parent name))"

definition lift_conv :: "fs_error + 'r \<Rightarrow> ('f, 'w, 'r) srv" where
  "lift_conv r = of_sum r"

definition alloc_fh :: "('f, 'w, u64) srv" where
  "alloc_fh = bindE (gets (\<lambda>s. fh_src (server s))) (\<lambda>n.
     bindE (modify (\<lambda>s. s\<lparr>server := (server s)\<lparr>fh_src := n + 1\<rparr>\<rparr>)) (\<lambda>_. ok n))"

definition get_fh :: "u64 \<Rightarrow> ('f, 'w, 'f \<times> path) srv" where
  "get_fh h = bindE (gets (\<lambda>s. fh (server s) h)) (of_opt (Errno EEXIST))"

definition put_fh :: "u64 \<Rightarrow> 'f \<times> path \<Rightarrow> ('f, 'w, unit) srv" where
  "put_fh h x = modify (\<lambda>s. s\<lparr>server := (server s)\<lparr>fh := (fh (server s))(h \<mapsto> x)\<rparr>\<rparr>)"

definition get_dh :: "u64 \<Rightarrow> ('f, 'w, Entry list \<times> path) srv" where
  "get_dh h = bindE (gets (\<lambda>s. dh (server s) h)) (of_opt (Errno EEXIST))"

definition put_dh :: "u64 \<Rightarrow> Entry list \<times> path \<Rightarrow> ('f, 'w, unit) srv" where
  "put_dh h x = modify (\<lambda>s. s\<lparr>server := (server s)\<lparr>dh := (dh (server s))(h \<mapsto> x)\<rparr>\<rparr>)"

text \<open>
  The beginning of most operations on an open file: the table is locked for reading, the entry looked up and
  locked, and both guards are held to the end.
\<close>

definition with_fh :: "u64 \<Rightarrow> ('f \<times> path \<Rightarrow> ('f, 'w, 'r) srv) \<Rightarrow> (('f, 'w) sys, 'r) task" where
  "with_fh h body = read_guard FhTable (
     bindE (act (get_fh h)) (\<lambda>x.
     write_guard (FhLock h) (act (body x))))"

section \<open>Attributes\<close>

definition get_attr_from_path :: "('f, 'w) os \<Rightarrow> path \<Rightarrow> ('f, 'w, Attr) srv" where
  "get_attr_from_path os p = bindE (io_call (os_metadata os p)) (\<lambda>meta. lift_conv (metadata_to_grpc meta))"

definition get_attr_from_file :: "('f, 'w) os \<Rightarrow> 'f \<Rightarrow> ('f, 'w, Attr) srv" where
  "get_attr_from_file os f = bindE (io_call (file_metadata os f)) (\<lambda>meta. lift_conv (metadata_to_grpc meta))"

definition file_owner_error_to_io_error :: "owner_error \<Rightarrow> io_error" where
  "file_owner_error_to_io_error e = (case e of
      IoError e \<Rightarrow> e
    | NixError e \<Rightarrow> Some e
    | GroupNotFound _ \<Rightarrow> None
    | UserNotFound _ \<Rightarrow> None)"

text \<open>\<open>fs::File::open\<close>: for reading only.\<close>

definition read_only :: open_options where
  "read_only = \<lparr>opt_create = False, opt_append = False, opt_write = False, opt_read = True, opt_mode = None\<rparr>"

definition when_some :: "'x option \<Rightarrow> ('x \<Rightarrow> ('s, 'e, unit) prog) \<Rightarrow> ('s, 'e, unit) prog" where
  "when_some x f = (case x of None \<Rightarrow> ok () | Some y \<Rightarrow> f y)"

definition set_attr_by_path :: "('f, 'w) os \<Rightarrow> path \<Rightarrow> SettableAttr \<Rightarrow> ('w, io_error, unit) prog" where
  "set_attr_by_path os p attr =
     bindE (when_some (s_uid attr) (\<lambda>uid. map_err file_owner_error_to_io_error (os_set_owner os p uid))) (\<lambda>_.
     bindE (when_some (s_gid attr) (\<lambda>gid. map_err file_owner_error_to_io_error (os_set_group os p gid))) (\<lambda>_.
     bindE (when_some (s_size attr) (\<lambda>n. bindE (os_open os read_only p) (\<lambda>f. file_set_len os f n))) (\<lambda>_.
     bindE (when_some (s_mtime attr) (\<lambda>t. os_set_mtime os p (seconds t) (nanos t))) (\<lambda>_.
     bindE (when_some (s_atime attr) (\<lambda>t. os_set_atime os p (seconds t) (nanos t))) (\<lambda>_.
     when_some (s_mode attr) (\<lambda>mode. os_set_permissions os p mode))))))"

definition lookup_impl :: "('f, 'w) os \<Rightarrow> string \<Rightarrow> string \<Rightarrow> ('f, 'w, Attr) srv" where
  "lookup_impl os parent name = bindE (child parent name) (get_attr_from_path os)"

definition get_attr_impl :: "('f, 'w) os \<Rightarrow> string option \<Rightarrow> u64 option \<Rightarrow> u32 \<Rightarrow> ('f, 'w, Attr) srv" where
  "get_attr_impl os p h flags = (case (p, h) of
      (_, Some h) \<Rightarrow> request (read_guard FhTable (
        bindE (act (get_fh h)) (\<lambda>(f, _).
        bindE (read_guard (FhLock h) (act (io_call (file_metadata os f)))) (\<lambda>meta.
        act (lift_conv (metadata_to_grpc meta))))))
    | (Some p, None) \<Rightarrow> bindE (real p) (get_attr_from_path os)
    | (None, None) \<Rightarrow> fail (Errno EACCES))"

definition set_attr_impl ::
    "('f, 'w) os \<Rightarrow> string option \<Rightarrow> u64 option \<Rightarrow> SettableAttr option \<Rightarrow> ('f, 'w, Attr) srv" where
  "set_attr_impl os p h attr = (case attr of
      None \<Rightarrow> fail (Errno EACCES)
    | Some attr \<Rightarrow> (case (p, h) of
        (_, Some h) \<Rightarrow> request (read_guard FhTable (
          bindE (act (get_fh h)) (\<lambda>(f, stored).
          read_guard (FhLock h) (
          bindE (act root_of) (\<lambda>root.
          bindE (act (io_call (set_attr_by_path os (real_path_of root stored) attr))) (\<lambda>_.
          act (get_attr_from_file os f)))))))
      | (Some p, _) \<Rightarrow>
          bindE (real p) (\<lambda>q.
          bindE (io_call (set_attr_by_path os q attr)) (\<lambda>_.
          get_attr_from_path os q))
      | (None, None) \<Rightarrow> fail (Errno EACCES)))"

section \<open>Names\<close>

definition mkdir_impl :: "('f, 'w) os \<Rightarrow> string \<Rightarrow> string \<Rightarrow> u32 \<Rightarrow> u32 \<Rightarrow> ('f, 'w, Attr) srv" where
  "mkdir_impl os parent name mode umask =
     bindE (child parent name) (\<lambda>p.
     bindE (nix_call (os_mkdir os p (os_mode_truncate os mode))) (\<lambda>_.
     get_attr_from_path os p))"

definition unlink_impl :: "('f, 'w) os \<Rightarrow> string \<Rightarrow> string \<Rightarrow> ('f, 'w, unit) srv" where
  "unlink_impl os parent name = bindE (child parent name) (\<lambda>p. nix_call (os_unlink os p))"

definition symlink_impl :: "('f, 'w) os \<Rightarrow> string \<Rightarrow> string \<Rightarrow> string \<Rightarrow> ('f, 'w, Attr) srv" where
  "symlink_impl os parent name link_path =
     bindE (child parent name) (\<lambda>target.
     bindE (real link_path) (\<lambda>source.
     bindE (io_call (os_symlink os source target)) (\<lambda>_.
     get_attr_from_path os target)))"

definition rmdir_impl :: "('f, 'w) os \<Rightarrow> string \<Rightarrow> string \<Rightarrow> ('f, 'w, unit) srv" where
  "rmdir_impl os parent name = bindE (child parent name) (\<lambda>p. io_call (os_remove_dir os p))"

definition rename_impl :: "('f, 'w) os \<Rightarrow> string \<Rightarrow> string \<Rightarrow> string \<Rightarrow> string \<Rightarrow> u32 \<Rightarrow> ('f, 'w, unit) srv" where
  "rename_impl os origin_parent origin_name parent name flag =
     bindE (child origin_parent origin_name) (\<lambda>origin.
     bindE (child parent name) (\<lambda>p. io_call (os_rename os origin p)))"

definition readlink_impl :: "('f, 'w) os \<Rightarrow> string \<Rightarrow> ('f, 'w, string) srv" where
  "readlink_impl os p = bindE (io_call (os_read_link os (components p))) (\<lambda>link. ok (to_string_lossy link))"

section \<open>Directories\<close>

definition errno_entry :: "io_error \<Rightarrow> Entry" where
  "errno_entry e = \<lparr>inner = Some (InnerErrno (unwrap_or e EACCES))\<rparr>"

definition mk_entry :: "Filetype \<Rightarrow> string \<Rightarrow> i64 \<Rightarrow> Attr \<Rightarrow> Entry" where
  "mk_entry kind name offset attr = \<lparr>inner = Some (InnerEntry \<lparr>e_kind = kind, e_name = name, e_offset = offset,
     e_attr = Some attr, e_entry_ttl_ms = 1000, e_attr_ttl_ms = 1000\<rparr>)\<rparr>"

definition dir_entry :: "nat \<Rightarrow> io_error + dirent \<Rightarrow> fs_error + Entry" where
  "dir_entry offset entry = (case entry of
      Inl e \<Rightarrow> Inr (errno_entry e)
    | Inr d \<Rightarrow> (case d_type d of
        Inl e \<Rightarrow> Inr (errno_entry e)
      | Inr t \<Rightarrow> (case std_to_grpc t of
          Inl x \<Rightarrow> Inl x
        | Inr kind \<Rightarrow> (case d_meta d of
            Inl e \<Rightarrow> Inr (errno_entry e)
          | Inr meta \<Rightarrow> (case metadata_to_grpc meta of
              Inl x \<Rightarrow> Inl x
            | Inr attr \<Rightarrow> Inr (mk_entry kind (to_string_lossy (d_name d)) (1 + of_nat offset) attr))))))"

text \<open>The stream of the entries, numbered from \<open>n\<close> on; a panic in one of them ends it.\<close>

fun dir_entries :: "nat \<Rightarrow> (io_error + dirent) list \<Rightarrow> fs_error + Entry list" where
  "dir_entries n [] = Inr []"
| "dir_entries n (d # ds) = (case dir_entry n d of
      Inl x \<Rightarrow> Inl x
    | Inr e \<Rightarrow> map_sum (\<lambda>x. x) ((#) e) (dir_entries (Suc n) ds))"

definition shift_offset :: "Entry \<Rightarrow> Entry" where
  "shift_offset entry = (case inner entry of
      Some (InnerEntry e) \<Rightarrow> \<lparr>inner = Some (InnerEntry (e\<lparr>e_offset := e_offset e + 2\<rparr>))\<rparr>
    | _ \<Rightarrow> entry)"

definition opendir_impl :: "('f, 'w) os \<Rightarrow> string \<Rightarrow> u32 \<Rightarrow> ('f, 'w, u64 \<times> u32) srv" where
  "opendir_impl os p flags = request (
     bindE (act alloc_fh) (\<lambda>h.
     bindE (act (real p)) (\<lambda>q.
     bindE (act (io_call (os_read_dir os q))) (\<lambda>ds.
     bindE (act (lift_conv (dir_entries 0 ds))) (\<lambda>entries.
     bindE (if p = ''/'' then ok entries
            else bindE (act (get_attr_from_path os q)) (\<lambda>dot.
                 bindE (act (of_opt Panicked (path_parent q))) (\<lambda>up.
                 bindE (act (get_attr_from_path os up)) (\<lambda>dotdot.
                 ok ([mk_entry Directory ''.'' 1 dot, mk_entry Directory ''..'' 1 dotdot] @
                     map shift_offset entries))))) (\<lambda>entries.
     bindE (write_guard DhTable (act (put_dh h (entries, q)))) (\<lambda>_.
     ok (h, flags))))))))"

definition releasedir_impl :: "u64 \<Rightarrow> u32 \<Rightarrow> string \<Rightarrow> ('f, 'w, unit) srv" where
  "releasedir_impl h flag p = request (write_guard DhTable (
     act (modify (\<lambda>s. s\<lparr>server := (server s)\<lparr>dh := (dh (server s))(h := None)\<rparr>\<rparr>))))"

definition readdir_impl :: "string \<Rightarrow> u64 \<Rightarrow> u64 \<Rightarrow> u64 \<Rightarrow> ('f, 'w, Entry list) srv" where
  "readdir_impl parent h offset lock_owner =
     request (read_guard DhTable (
       bindE (act (get_dh h)) (\<lambda>(entries, _).
       read_guard (DhLock h) (ok (drop (unat offset) entries)))))"

section \<open>Files\<close>

text \<open>\<open>O_CREAT\<close>, \<open>O_APPEND\<close> and the access mode in the low two bits.\<close>

definition open_opts :: "u32 \<Rightarrow> bool \<Rightarrow> u32 option \<Rightarrow> open_options" where
  "open_opts flags create mode =
     (let w_only = flags AND 3 = 1; r_only = flags AND 3 = 0; rw = flags AND 3 = 2
      in \<lparr>opt_create = create, opt_append = flags AND 0x400 \<noteq> 0, opt_write = rw \<or> w_only,
          opt_read = rw \<or> r_only, opt_mode = mode\<rparr>)"

definition open_task :: "('f, 'w) os \<Rightarrow> string \<Rightarrow> u32 \<Rightarrow> (('f, 'w) sys, u64 \<times> u32) task" where
  "open_task os p flags =
     bindE (act (real p)) (\<lambda>q.
     bindE (act (io_call (os_open os (open_opts flags (flags AND 0x40 \<noteq> 0) None) q))) (\<lambda>f.
     bindE (act alloc_fh) (\<lambda>h.
     bindE (write_guard FhTable (act (put_fh h (f, q)))) (\<lambda>_.
     ok (h, flags)))))"

definition open_impl :: "('f, 'w) os \<Rightarrow> string \<Rightarrow> u32 \<Rightarrow> ('f, 'w, u64 \<times> u32) srv" where
  "open_impl os p flags = request (open_task os p flags)"

record CreateOk =
  c_ttl_ms :: u64
  c_attr :: "Attr option"
  c_generation :: u64
  c_fh :: u64
  c_flags :: u32

definition create_task :: "('f, 'w) os \<Rightarrow> string \<Rightarrow> string \<Rightarrow> u32 \<Rightarrow> u32 \<Rightarrow> (('f, 'w) sys, CreateOk) task" where
  "create_task os parent name mode flags =
     bindE (act (child parent name)) (\<lambda>p.
     bindE (act (io_call (os_open os (open_opts flags True (Some mode)) p))) (\<lambda>f.
     bindE (act alloc_fh) (\<lambda>h.
     bindE (act (io_call (file_metadata os f))) (\<lambda>meta.
     bindE (write_guard FhTable (act (put_fh h (f, p)))) (\<lambda>_.
     bindE (act (lift_conv (metadata_to_grpc meta))) (\<lambda>attr.
     ok \<lparr>c_ttl_ms = 1000, c_attr = Some attr, c_generation = 0, c_fh = h, c_flags = flags\<rparr>))))))"

definition create_impl :: "('f, 'w) os \<Rightarrow> string \<Rightarrow> string \<Rightarrow> u32 \<Rightarrow> u32 \<Rightarrow> ('f, 'w, CreateOk) srv" where
  "create_impl os parent name mode flags = request (create_task os parent name mode flags)"

text \<open>
  The loop of \<open>read_impl\<close>: \<open>want\<close> bytes are wanted, \<open>acc\<close> have been read. A read that returned more than
  the buffer holds would panic at the next slice.
\<close>

function read_loop :: "('f, 'w) os \<Rightarrow> 'f \<Rightarrow> nat \<Rightarrow> u8 list \<Rightarrow> ('f, 'w) sys \<Rightarrow> (fs_error + u8 list) \<times> ('f, 'w) sys" where
  "read_loop os f want acc s =
     (case io_call (file_read os f (want - length acc)) s of
        (Inl e, s') \<Rightarrow> (Inl e, s')
      | (Inr bs, s') \<Rightarrow>
          if bs = [] then (Inr acc, s')
          else if length bs > want - length acc then (Inl Panicked, s')
          else read_loop os f want (acc @ bs) s')"
  by pat_completeness auto
termination
  by (relation "measure (\<lambda>(os, f, want, acc, s). want - length acc)") (auto simp: not_less simp flip: length_greater_0_conv)

definition read_task :: "('f, 'w) os \<Rightarrow> u64 \<Rightarrow> u64 \<Rightarrow> u32 \<Rightarrow> (('f, 'w) sys, u8 list) task" where
  "read_task os h offset want = with_fh h (\<lambda>(f, _).
     bindE (io_call (file_seek os f (SeekStart offset))) (\<lambda>_.
     bindE (read_loop os f (unat want) []) (\<lambda>data.
     bindE (io_call (file_metadata os f)) (\<lambda>_.
     ok data))))"

definition read_impl :: "('f, 'w) os \<Rightarrow> u64 \<Rightarrow> u64 \<Rightarrow> u32 \<Rightarrow> ('f, 'w, u8 list) srv" where
  "read_impl os h offset want = request (read_task os h offset want)"

definition write_task :: "('f, 'w) os \<Rightarrow> u64 \<Rightarrow> u64 \<Rightarrow> u8 list \<Rightarrow> u32 \<Rightarrow> (('f, 'w) sys, u32) task" where
  "write_task os h offset data flags = with_fh h (\<lambda>(f, _).
     bindE (io_call (file_seek os f (SeekStart offset))) (\<lambda>_.
     bindE (io_call (file_write os f data)) (\<lambda>written.
     ok (of_nat written))))"

definition write_impl :: "('f, 'w) os \<Rightarrow> u64 \<Rightarrow> u64 \<Rightarrow> u8 list \<Rightarrow> u32 \<Rightarrow> ('f, 'w, u32) srv" where
  "write_impl os h offset data flags = request (write_task os h offset data flags)"

definition release_task :: "('f, 'w) os \<Rightarrow> u64 \<Rightarrow> u32 \<Rightarrow> u64 \<Rightarrow> bool \<Rightarrow> (('f, 'w) sys, unit) task" where
  "release_task os h flags lock_owner flush = write_guard FhTable (
     bindE (act (gets (\<lambda>s. fh (server s) h))) (\<lambda>x.
     bindE (act (modify (\<lambda>s. s\<lparr>server := (server s)\<lparr>fh := (fh (server s))(h := None)\<rparr>\<rparr>))) (\<lambda>_.
     case x of
       Some (f, _) \<Rightarrow> if flush then write_guard (FhLock h) (act (io_call (file_flush os f))) else ok ()
     | None \<Rightarrow> ok ())))"

definition release_impl :: "('f, 'w) os \<Rightarrow> u64 \<Rightarrow> u32 \<Rightarrow> u64 \<Rightarrow> bool \<Rightarrow> ('f, 'w, unit) srv" where
  "release_impl os h flags lock_owner flush = request (release_task os h flags lock_owner flush)"

text \<open>
  The three flags are set by shifting the constants to the right by the mask; a shift distance is
  taken modulo 32.
\<close>

definition access_impl :: "('f, 'w) os \<Rightarrow> string \<Rightarrow> u32 \<Rightarrow> ('f, 'w, unit) srv" where
  "access_impl os p amask =
     (let sh = (\<lambda>c :: i32. drop_bit (unat (amask AND 31)) c);
          flag = \<lparr>x_ok = sh 1 \<noteq> 0, r_ok = sh 4 \<noteq> 0, w_ok = sh 2 \<noteq> 0\<rparr>
      in bindE (real p) (\<lambda>q. nix_call (os_access os q flag)))"

definition flush_impl :: "('f, 'w) os \<Rightarrow> u64 \<Rightarrow> u64 \<Rightarrow> ('f, 'w, unit) srv" where
  "flush_impl os h lock_owner = request (with_fh h (\<lambda>(f, _). io_call (file_flush os f)))"

text \<open>The guard of \<open>file\<close> lives to the end of the function; the lock is taken again for the flush.\<close>

definition fsync_task :: "('f, 'w) os \<Rightarrow> u64 \<Rightarrow> bool \<Rightarrow> (('f, 'w) sys, unit) task" where
  "fsync_task os h datasync = read_guard FhTable (
     bindE (act (get_fh h)) (\<lambda>(file, _).
     write_guard (FhLock h) (
     bindE (write_guard (FhLock h) (act (io_call (file_flush os file)))) (\<lambda>_.
     act (nix_call (file_fsync os file))))))"

definition fsync_impl :: "('f, 'w) os \<Rightarrow> u64 \<Rightarrow> bool \<Rightarrow> ('f, 'w, unit) srv" where
  "fsync_impl os h datasync = request (fsync_task os h datasync)"

definition fallocate_impl :: "('f, 'w) os \<Rightarrow> u64 \<Rightarrow> u64 \<Rightarrow> u64 \<Rightarrow> u32 \<Rightarrow> ('f, 'w, unit) srv" where
  "fallocate_impl os h offset len mode = request (with_fh h (\<lambda>(f, _).
     if file_fallocate_bits os mode then nix_call (file_fallocate os f mode offset len)
     else fail (Errno EINVAL)))"

definition lseek_impl :: "('f, 'w) os \<Rightarrow> u64 \<Rightarrow> u64 \<Rightarrow> u32 \<Rightarrow> ('f, 'w, u64) srv" where
  "lseek_impl os h offset whence = request (with_fh h (\<lambda>(f, _).
     if whence = 0 then io_call (file_seek os f (SeekStart offset))
     else if whence = 1 then io_call (file_seek os f (SeekCurrent offset))
     else if whence = 2 then io_call (file_seek os f (SeekEnd offset))
     else fail (Errno ENOSYS)))"

definition copy_file_range_impl ::
    "('f, 'w) os \<Rightarrow> u64 \<Rightarrow> u64 \<Rightarrow> u64 \<Rightarrow> u64 \<Rightarrow> u64 \<Rightarrow> u64 \<Rightarrow> ('f, 'w, u64) srv" where
  "copy_file_range_impl os fh_in offset_in fh_out offset_out len flags = request (read_guard FhTable (
     bindE (act (get_fh fh_in)) (\<lambda>(f_in, _).
     write_guard (FhLock fh_in) (
     bindE (act (get_fh fh_out)) (\<lambda>(f_out, _).
     write_guard (FhLock fh_out) (
     bindE (act (io_call (file_flush os f_out))) (\<lambda>_.
     bindE (act (io_call (file_flush os f_out))) (\<lambda>_.
     bindE (act (nix_call (file_copy_range os f_in offset_in f_out offset_out len))) (\<lambda>copied.
     ok (of_nat copied))))))))))"

section \<open>An instance of the operating system\<close>

text \<open>
  Files in memory: their contents, positions and the options they were opened with by path, one directory
  listing, no owners and no links. An open file is its path. On this instance the hypotheses of the properties are shown to
  hold.
\<close>

record ram =
  ram_files :: "path \<rightharpoonup> u8 list"
  ram_pos :: "path \<Rightarrow> nat"
  ram_opts :: "path \<Rightarrow> open_options"
  ram_list :: "(io_error + dirent) list"

definition ram_meta :: "u8 list \<Rightarrow> Metadata" where
  "ram_meta bs = \<lparr>m_len = of_nat (length bs), m_blocks = 1, m_atime = 0, m_mtime = 0, m_ctime = 0,
     m_mode = 0x81A4, m_nlink = 1, m_uid = 0, m_gid = 0, m_rdev = 0, m_blksize = 512\<rparr>"

definition ram_stat :: "path \<Rightarrow> (ram, io_error, Metadata) prog" where
  "ram_stat p = (\<lambda>w. case ram_files w p of None \<Rightarrow> (Inl (Some 2), w) | Some bs \<Rightarrow> (Inr (ram_meta bs), w))"

definition ram_open :: "open_options \<Rightarrow> path \<Rightarrow> (ram, io_error, path) prog" where
  "ram_open opts p = (\<lambda>w. case ram_files w p of
      Some _ \<Rightarrow> (Inr p, w\<lparr>ram_pos := (ram_pos w)(p := 0), ram_opts := (ram_opts w)(p := opts)\<rparr>)
    | None \<Rightarrow> if opt_create opts
              then (Inr p, w\<lparr>ram_files := (ram_files w)(p \<mapsto> []), ram_pos := (ram_pos w)(p := 0),
                     ram_opts := (ram_opts w)(p := opts)\<rparr>)
              else (Inl (Some 2), w))"

definition ram_seek :: "path \<Rightarrow> seek_from \<Rightarrow> (ram, io_error, u64) prog" where
  "ram_seek p sk = (\<lambda>w. case sk of
      SeekStart n \<Rightarrow> (Inr n, w\<lparr>ram_pos := (ram_pos w)(p := unat n)\<rparr>)
    | _ \<Rightarrow> (Inl (Some EINVAL), w))"

definition ram_bytes :: "path \<Rightarrow> ram \<Rightarrow> u8 list" where
  "ram_bytes p w = unwrap_or (ram_files w p) []"

definition ram_read :: "path \<Rightarrow> nat \<Rightarrow> (ram, io_error, u8 list) prog" where
  "ram_read p n = (\<lambda>w. let bs = take n (drop (ram_pos w p) (ram_bytes p w))
     in (Inr bs, w\<lparr>ram_pos := (ram_pos w)(p := ram_pos w p + length bs)\<rparr>))"

text \<open>A file opened for appending is written at its end; one not opened for writing, not at all.\<close>

definition ram_writable :: "ram \<Rightarrow> path \<Rightarrow> bool" where
  "ram_writable w p \<longleftrightarrow> opt_write (ram_opts w p) \<or> opt_append (ram_opts w p)"

definition ram_write :: "path \<Rightarrow> u8 list \<Rightarrow> (ram, io_error, nat) prog" where
  "ram_write p bs = (\<lambda>w. let old = ram_bytes p w; i = (if opt_append (ram_opts w p) then length old else ram_pos w p)
     in if \<not> ram_writable w p then (Inl (Some 9), w) else (Inr (length bs), w\<lparr>ram_files := (ram_files w)(p \<mapsto>
           take i (old @ replicate (i - length old) 0) @ bs @ drop (i + length bs) old),
         ram_pos := (ram_pos w)(p := i + length bs)\<rparr>))"

definition ram_set_len :: "path \<Rightarrow> u64 \<Rightarrow> (ram, io_error, unit) prog" where
  "ram_set_len p n = (\<lambda>w.
     if ram_writable w p
     then (Inr (), w\<lparr>ram_files := (ram_files w)(p \<mapsto>
             take (unat n) (ram_bytes p w) @ replicate (unat n - length (ram_bytes p w)) 0)\<rparr>)
     else (Inl (Some EINVAL), w))"

definition ram_os :: "(path, ram) os" where
  "ram_os = \<lparr>
     os_metadata = ram_stat,
     os_set_owner = (\<lambda>_ _. fail (UserNotFound [])),
     os_set_group = (\<lambda>_ _. fail (GroupNotFound [])),
     os_set_mtime = (\<lambda>_ _ _. ok ()),
     os_set_atime = (\<lambda>_ _ _. ok ()),
     os_set_permissions = (\<lambda>_ _. ok ()),
     os_mode_truncate = (\<lambda>m. m AND 0xFFF),
     os_mkdir = (\<lambda>_ _. fail EACCES),
     os_unlink = (\<lambda>p. modify (\<lambda>w. w\<lparr>ram_files := (ram_files w)(p := None)\<rparr>)),
     os_symlink = (\<lambda>_ _. fail None),
     os_remove_dir = (\<lambda>_. fail None),
     os_rename = (\<lambda>_ _. fail None),
     os_read_dir = (\<lambda>_. gets ram_list),
     os_read_link = (\<lambda>_. fail None),
     os_access = (\<lambda>_ _. ok ()),
     os_open = ram_open,
     file_metadata = ram_stat,
     file_set_len = ram_set_len,
     file_seek = ram_seek,
     file_read = ram_read,
     file_write = ram_write,
     file_flush = (\<lambda>_. ok ()),
     file_fsync = (\<lambda>_. ok ()),
     file_fallocate_bits = (\<lambda>m. m = 0),
     file_fallocate = (\<lambda>_ _ _ _. ok ()),
     file_copy_range = (\<lambda>_ _ _ _ _. fail ENOSYS)\<rparr>"

text \<open>A server on \<open>/srv/fs\<close> with one file.\<close>

definition ram_sys :: "u8 list \<Rightarrow> (path, ram) sys" where
  "ram_sys bs = \<lparr>server = Server_new srv_root,
     world = \<lparr>ram_files = [srv_root @ [Normal ''x''] \<mapsto> bs], ram_pos = (\<lambda>_. 0), ram_opts = (\<lambda>_. read_only),
       ram_list = []\<rparr>\<rparr>"

lemmas fs_eval = Server_new_def io_call_def nix_call_def root_of_def real_def child_def lift_conv_def
  alloc_fh_def get_fh_def put_fh_def get_dh_def put_dh_def ram_os_def ram_sys_def ram_stat_def
  ram_open_def ram_seek_def ram_bytes_def ram_read_def ram_write_def ram_writable_def
  ram_set_len_def read_only_def srv_root_def
  child_path_def path_join_def real_path_def real_path_of_def components_def is_absolute_def
  List.map_filter_def piece_def real_step_def path_parent_def open_opts_def

end
