(* ===== verification/Fs_Unlocked.thy ===== *)
theory Fs_Unlocked
  imports Fs_Server
begin

text \<open>
  The operations of the server as programs without locks. A request that finds all locks free gets every
  lock it asks for, except for the two operations that ask for one they hold; and apart from those no
  operation ever waits.
\<close>

section \<open>Steps that never wait\<close>

lemma no_wait_calls [no_wait_intros]: "no_wait (io_call m)" "no_wait (nix_call m')"
  by (auto simp: no_wait_def io_call_def nix_call_def zoom_def map_err_def split: prod.split sum.split)

lemma no_wait_tables [no_wait_intros]:
  "no_wait (get_fh h)" "no_wait (get_dh h)" "no_wait (put_fh h x)" "no_wait (put_dh h y)" "no_wait alloc_fh"
  "no_wait root_of" "no_wait (real p)" "no_wait (child p n)"
  unfolding get_fh_def get_dh_def put_fh_def put_dh_def alloc_fh_def root_of_def real_def child_def
  by (intro no_wait_intros; simp)+

lemma conv_no_wait [simp]:
  "std_to_grpc m \<noteq> Inl Deadlock" "metadata_to_grpc meta \<noteq> Inl Deadlock"
  "dir_entry n d \<noteq> Inl Deadlock"
  by (auto simp: std_to_grpc_def metadata_to_grpc_def dir_entry_def split: sum.splits if_splits)

lemma dir_entries_no_wait [simp]: "dir_entries n ds \<noteq> Inl Deadlock"
  by (induction n ds rule: dir_entries.induct) (auto simp: map_sum_def split: sum.splits)

lemma no_wait_conv [no_wait_intros]: "r \<noteq> Inl Deadlock \<Longrightarrow> no_wait (lift_conv r)"
  by (simp add: lift_conv_def no_wait_intros)

lemma no_wait_attr [no_wait_intros]: "no_wait (get_attr_from_path os p)" "no_wait (get_attr_from_file os f)"
  unfolding get_attr_from_path_def get_attr_from_file_def by (intro no_wait_intros; simp)+

lemma no_wait_read_loop [no_wait_intros]: "no_wait (read_loop os f want acc)"
proof -
  have "fst (read_loop os f want acc s) \<noteq> Inl Deadlock" for s
  proof (induction os f want acc s rule: read_loop.induct)
    case (1 os f want acc s)
    obtain q u where io: "io_call (file_read os f (want - length acc)) s = (q, u)" by fastforce
    from no_waitD [OF no_wait_calls(1) io] 1 [OF io [symmetric]] io show ?case
      by (subst read_loop.simps) (auto split: sum.split)
  qed
  then show ?thesis by (simp add: no_wait_def)
qed

section \<open>Operations without their locks\<close>

lemma held_read [simp]: "l \<noteq> FhTable \<Longrightarrow> may_read ((no_locks(FhTable := x)) l)"
    "l \<noteq> FhTable \<Longrightarrow> may_write ((no_locks(FhTable := x)) l)" "l \<noteq> DhTable \<Longrightarrow> may_read ((no_locks(DhTable := x)) l)"
  by simp_all

lemma with_fh_runs:
  assumes "\<And>x. no_wait (body x)"
  shows "request (with_fh h body) = bindE (get_fh h) body"
  unfolding with_fh_def by (intro request_runs runs_as_intros no_wait_intros assms) simp_all

lemma get_attr_impl_eq: "get_attr_impl os p h flags = (case (p, h) of
      (_, Some h) \<Rightarrow> bindE (get_fh h) (\<lambda>(f, _). get_attr_from_file os f)
    | (Some p, None) \<Rightarrow> bindE (real p) (get_attr_from_path os)
    | (None, None) \<Rightarrow> fail (Errno EACCES))"
proof -
  have "request (read_guard FhTable (bindE (act (get_fh i)) (\<lambda>(f, _).
      bindE (read_guard (FhLock i) (act (io_call (file_metadata os f)))) (\<lambda>meta.
      act (lift_conv (metadata_to_grpc meta)))))) =
    bindE (get_fh i) (\<lambda>(f, _). bindE (io_call (file_metadata os f)) (\<lambda>meta. lift_conv (metadata_to_grpc meta)))" for i
    by (intro request_runs runs_as_intros no_wait_intros) simp_all
  then show ?thesis unfolding get_attr_impl_def get_attr_from_file_def by (simp split: option.split)
qed

lemma set_attr_impl_eq: "set_attr_impl os p h attr = (case attr of
      None \<Rightarrow> fail (Errno EACCES)
    | Some attr \<Rightarrow> (case (p, h) of
        (_, Some h) \<Rightarrow>
          bindE (get_fh h) (\<lambda>(f, stored).
          bindE root_of (\<lambda>root.
          bindE (io_call (set_attr_by_path os (real_path_of root stored) attr)) (\<lambda>_.
          get_attr_from_file os f)))
      | (Some p, _) \<Rightarrow>
          bindE (real p) (\<lambda>q.
          bindE (io_call (set_attr_by_path os q attr)) (\<lambda>_.
          get_attr_from_path os q))
      | (None, None) \<Rightarrow> fail (Errno EACCES)))"
proof -
  have "request (read_guard FhTable (bindE (act (get_fh i)) (\<lambda>(f, stored). read_guard (FhLock i) (
      bindE (act root_of) (\<lambda>root.
      bindE (act (io_call (set_attr_by_path os (real_path_of root stored) a))) (\<lambda>_.
      act (get_attr_from_file os f))))))) =
    bindE (get_fh i) (\<lambda>(f, stored). bindE root_of (\<lambda>root.
      bindE (io_call (set_attr_by_path os (real_path_of root stored) a)) (\<lambda>_. get_attr_from_file os f)))" for i a
    by (intro request_runs runs_as_intros no_wait_intros) simp_all
  then show ?thesis unfolding set_attr_impl_def by (simp split: option.split)
qed

lemma opendir_impl_eq: "opendir_impl os p flags =
     bindE alloc_fh (\<lambda>h.
     bindE (real p) (\<lambda>q.
     bindE (io_call (os_read_dir os q)) (\<lambda>ds.
     bindE (lift_conv (dir_entries 0 ds)) (\<lambda>entries.
     bindE (if p = ''/'' then ok entries
            else bindE (get_attr_from_path os q) (\<lambda>dot.
                 bindE (of_opt Panicked (path_parent q)) (\<lambda>up.
                 bindE (get_attr_from_path os up) (\<lambda>dotdot.
                 ok ([mk_entry Directory ''.'' 1 dot, mk_entry Directory ''..'' 1 dotdot] @
                     map shift_offset entries))))) (\<lambda>entries.
     bindE (put_dh h (entries, q)) (\<lambda>_.
     ok (h, flags)))))))"
  unfolding opendir_impl_def by (intro request_runs runs_as_intros no_wait_intros) simp_all

lemma releasedir_impl_eq:
  "releasedir_impl h flag p = modify (\<lambda>s. s\<lparr>server := (server s)\<lparr>dh := (dh (server s))(h := None)\<rparr>\<rparr>)"
  unfolding releasedir_impl_def by (intro request_runs runs_as_intros no_wait_intros) simp_all

lemma readdir_impl_eq: "readdir_impl parent h offset lock_owner =
     bindE (get_dh h) (\<lambda>(entries, _). ok (drop (unat offset) entries))"
  unfolding readdir_impl_def by (intro request_runs runs_as_intros no_wait_intros) simp_all

lemma open_impl_eq: "open_impl os p flags =
     bindE (real p) (\<lambda>q.
     bindE (io_call (os_open os (open_opts flags (flags AND 0x40 \<noteq> 0) None) q)) (\<lambda>f.
     bindE alloc_fh (\<lambda>h.
     bindE (put_fh h (f, q)) (\<lambda>_.
     ok (h, flags)))))"
  unfolding open_impl_def open_task_def by (intro request_runs runs_as_intros no_wait_intros) simp_all

lemma create_impl_eq: "create_impl os parent name mode flags =
     bindE (child parent name) (\<lambda>p.
     bindE (io_call (os_open os (open_opts flags True (Some mode)) p)) (\<lambda>f.
     bindE alloc_fh (\<lambda>h.
     bindE (io_call (file_metadata os f)) (\<lambda>meta.
     bindE (put_fh h (f, p)) (\<lambda>_.
     bindE (lift_conv (metadata_to_grpc meta)) (\<lambda>attr.
     ok \<lparr>c_ttl_ms = 1000, c_attr = Some attr, c_generation = 0, c_fh = h, c_flags = flags\<rparr>))))))"
  unfolding create_impl_def create_task_def by (intro request_runs runs_as_intros no_wait_intros) simp_all

lemma read_impl_eq: "read_impl os h offset want =
     bindE (get_fh h) (\<lambda>(f, _).
     bindE (io_call (file_seek os f (SeekStart offset))) (\<lambda>_.
     bindE (read_loop os f (unat want) []) (\<lambda>data.
     bindE (io_call (file_metadata os f)) (\<lambda>_.
     ok data))))"
  unfolding read_impl_def read_task_def by (intro with_fh_runs no_wait_intros)

lemma write_impl_eq: "write_impl os h offset data flags =
     bindE (get_fh h) (\<lambda>(f, _).
     bindE (io_call (file_seek os f (SeekStart offset))) (\<lambda>_.
     bindE (io_call (file_write os f data)) (\<lambda>written.
     ok (of_nat written))))"
  unfolding write_impl_def write_task_def by (intro with_fh_runs no_wait_intros)

lemma release_impl_eq: "release_impl os h flags lock_owner flush =
     bindE (gets (\<lambda>s. fh (server s) h)) (\<lambda>x.
     bindE (modify (\<lambda>s. s\<lparr>server := (server s)\<lparr>fh := (fh (server s))(h := None)\<rparr>\<rparr>)) (\<lambda>_.
     case x of
       Some (f, _) \<Rightarrow> if flush then io_call (file_flush os f) else ok ()
     | None \<Rightarrow> ok ()))"
  unfolding release_impl_def release_task_def by (intro request_runs runs_as_intros no_wait_intros) simp_all

lemma flush_impl_eq: "flush_impl os h lock_owner = bindE (get_fh h) (\<lambda>(f, _). io_call (file_flush os f))"
  unfolding flush_impl_def by (intro with_fh_runs no_wait_intros)

lemma fallocate_impl_eq: "fallocate_impl os h offset len mode =
     bindE (get_fh h) (\<lambda>(f, _).
     if file_fallocate_bits os mode then nix_call (file_fallocate os f mode offset len)
     else fail (Errno EINVAL))"
  unfolding fallocate_impl_def by (intro with_fh_runs no_wait_intros) simp

lemma lseek_impl_eq: "lseek_impl os h offset whence =
     bindE (get_fh h) (\<lambda>(f, _).
     if whence = 0 then io_call (file_seek os f (SeekStart offset))
     else if whence = 1 then io_call (file_seek os f (SeekCurrent offset))
     else if whence = 2 then io_call (file_seek os f (SeekEnd offset))
     else fail (Errno ENOSYS))"
  unfolding lseek_impl_def by (intro with_fh_runs no_wait_intros) simp

section \<open>Operations that wait for themselves\<close>

lemma get_fh_app: "get_fh h s = (case fh (server s) h of None \<Rightarrow> Inl (Errno EEXIST) | Some x \<Rightarrow> Inr x, s)"
  by (simp add: get_fh_def split: option.split)

lemma act_get_fh: "act (get_fh h) (s, L) =
    (case fh (server s) h of None \<Rightarrow> Inl (Errno EEXIST) | Some x \<Rightarrow> Inr x, s, L)"
  by (simp add: act_run get_fh_def split: option.split)

text \<open>The locks an \<open>fsync\<close> leaves: it reads the table, writes the entry, and waits for the entry.\<close>

definition stuck_locks :: "u64 \<Rightarrow> locks" where
  "stuck_locks h = no_locks(FhTable := \<lparr>readers = 1, writer = False, waiting = False\<rparr>,
     FhLock h := \<lparr>readers = 0, writer = True, waiting = True\<rparr>)"

lemma fsync_task_run: "fsync_task os h datasync (s, no_locks) = (case fh (server s) h of
      None \<Rightarrow> (Inl (Errno EEXIST), s, no_locks)
    | Some _ \<Rightarrow> (Inl Deadlock, s, stuck_locks h))"
  by (auto simp: fsync_task_def read_guard_def write_guard_def act_get_fh bindE_app no_locks_def may_read_def
      may_write_def stuck_locks_def split: option.split)

lemma fsync_impl_eq: "fsync_impl os h datasync = bindE (get_fh h) (\<lambda>_. fail Deadlock)"
  by (rule ext) (simp add: fsync_impl_def request_def fsync_task_run bindE_app get_fh_def split: option.split)

lemma copy_file_range_impl_eq: "copy_file_range_impl os fh_in offset_in fh_out offset_out len flags =
     bindE (get_fh fh_in) (\<lambda>(f_in, _).
     bindE (get_fh fh_out) (\<lambda>(f_out, _).
     if fh_in = fh_out then fail Deadlock
     else bindE (io_call (file_flush os f_out)) (\<lambda>_.
          bindE (io_call (file_flush os f_out)) (\<lambda>_.
          bindE (nix_call (file_copy_range os f_in offset_in f_out offset_out len)) (\<lambda>copied.
          ok (of_nat copied))))))"
proof (cases "fh_in = fh_out")
  case False
  then show ?thesis
    unfolding copy_file_range_impl_def by simp (intro request_runs runs_as_intros no_wait_intros; simp)
next
  case True
  show ?thesis
    unfolding copy_file_range_impl_def True
  proof
    fix s
    show "request (read_guard FhTable (bindE (act (get_fh fh_out)) (\<lambda>(f_in, _).
        write_guard (FhLock fh_out) (bindE (act (get_fh fh_out)) (\<lambda>(f_out, _).
        write_guard (FhLock fh_out) (bindE (act (io_call (file_flush os f_out))) (\<lambda>_.
        bindE (act (io_call (file_flush os f_out))) (\<lambda>_.
        bindE (act (nix_call (file_copy_range os f_in offset_in f_out offset_out len))) (\<lambda>copied.
        ok (of_nat copied)))))))))) s =
      bindE (get_fh fh_out) (\<lambda>(f_in, _). bindE (get_fh fh_out) (\<lambda>(f_out, _).
        if fh_out = fh_out then fail Deadlock
        else bindE (io_call (file_flush os f_out)) (\<lambda>_. bindE (io_call (file_flush os f_out)) (\<lambda>_.
          bindE (nix_call (file_copy_range os f_in offset_in f_out offset_out len)) (\<lambda>copied.
          ok (of_nat copied)))))) s"
      by (cases "fh (server s) fh_out")
        (auto simp: request_def read_guard_def write_guard_def act_get_fh get_fh_app bindE_app no_locks_def
          may_read_def may_write_def)
  qed
qed

end
