(* ===== verification/Fs_Handles.thy ===== *)
theory Fs_Handles
  imports Fs_Unlocked
begin

text \<open>
  The two handle tables of the server. What the operations rely on is the locale \<open>handle_table\<close>,
  interpreted on the file table and on the directory table; every request changes the tables in one of
  a few ways, from which it follows that no handle is ever given out twice.
\<close>

section \<open>A table of handles\<close>

locale handle_table =
  fixes tbl :: "'f Server \<Rightarrow> u64 \<rightharpoonup> 'v"
    and get :: "u64 \<Rightarrow> ('f, 'w, 'v) srv"
    and put :: "u64 \<Rightarrow> 'v \<Rightarrow> ('f, 'w, unit) srv"
    and del :: "u64 \<Rightarrow> ('f, 'w, unit) srv"
  assumes get_run: "get h s = (case tbl (server s) h of None \<Rightarrow> (Inl (Errno EEXIST), s) | Some x \<Rightarrow> (Inr x, s))"
    and put_run: "fst (put h x s) = Inr ()" "tbl (server (snd (put h x s))) = (tbl (server s))(h \<mapsto> x)"
    and del_run: "fst (del h s) = Inr ()" "tbl (server (snd (del h s))) = (tbl (server s))(h := None)"
begin

lemma get_unknown: "tbl (server s) h = None \<Longrightarrow> bindE (get h) f s = (Inl (Errno EEXIST), s)"
  by (simp add: bindE_app get_run)

lemma get_known: "tbl (server s) h = Some x \<Longrightarrow> bindE (get h) f s = f x s"
  by (simp add: bindE_app get_run)

lemma get_after_put: "get h (snd (put h x s)) = (Inr x, snd (put h x s))"
  by (simp add: get_run put_run)

lemma get_after_del: "get h (snd (del h s)) = (Inl (Errno EEXIST), snd (del h s))"
  by (simp add: get_run del_run)

lemma put_other: "h \<noteq> h' \<Longrightarrow> tbl (server (snd (put h x s))) h' = tbl (server s) h'"
  by (simp add: put_run)

end

interpretation files: handle_table fh get_fh put_fh "\<lambda>h. modify (\<lambda>s. s\<lparr>server := (server s)\<lparr>fh := (fh (server s))(h := None)\<rparr>\<rparr>)"
  by unfold_locales (auto simp: get_fh_def put_fh_def split: option.splits)

interpretation dirs: handle_table dh get_dh put_dh "\<lambda>h. releasedir_impl h flag p"
  for flag :: u32 and p :: string
  by unfold_locales (auto simp: get_dh_def put_dh_def releasedir_impl_eq split: option.splits)

section \<open>Requests\<close>

datatype fs_request =
    Lookup string string
  | GetAttr "string option" "u64 option" u32
  | SetAttr "string option" "u64 option" "SettableAttr option"
  | Mkdir string string u32 u32
  | Unlink string string
  | MkSymlink string string string
  | Rmdir string string
  | Rename string string string string u32
  | Opendir string u32
  | Releasedir u64 u32 string
  | Readdir string u64 u64 u64
  | Open string u32
  | Read u64 u64 u32
  | Write u64 u64 "u8 list" u32
  | Release u64 u32 u64 bool
  | Access string u32
  | Flush u64 u64
  | Fsync u64 bool
  | Create string string u32 u32
  | Fallocate u64 u64 u64 u32
  | Lseek u64 u64 u32
  | Readlink string
  | CopyFileRange u64 u64 u64 u64 u64 u64

text \<open>What a request leaves behind.\<close>

fun after_request :: "('f, 'w) os \<Rightarrow> fs_request \<Rightarrow> ('f, 'w) sys \<Rightarrow> ('f, 'w) sys" where
  "after_request os (Lookup p n) s = snd (lookup_impl os p n s)"
| "after_request os (GetAttr p h fl) s = snd (get_attr_impl os p h fl s)"
| "after_request os (SetAttr p h a) s = snd (set_attr_impl os p h a s)"
| "after_request os (Mkdir p n m u) s = snd (mkdir_impl os p n m u s)"
| "after_request os (Unlink p n) s = snd (unlink_impl os p n s)"
| "after_request os (MkSymlink p n l) s = snd (symlink_impl os p n l s)"
| "after_request os (Rmdir p n) s = snd (rmdir_impl os p n s)"
| "after_request os (Rename op on p n fl) s = snd (rename_impl os op on p n fl s)"
| "after_request os (Opendir p fl) s = snd (opendir_impl os p fl s)"
| "after_request os (Releasedir h fl p) s = snd (releasedir_impl h fl p s)"
| "after_request os (Readdir p h off lo) s = snd (readdir_impl p h off lo s)"
| "after_request os (Open p fl) s = snd (open_impl os p fl s)"
| "after_request os (Read h off n) s = snd (read_impl os h off n s)"
| "after_request os (Write h off bs fl) s = snd (write_impl os h off bs fl s)"
| "after_request os (Release h fl lo fs) s = snd (release_impl os h fl lo fs s)"
| "after_request os (Access p m) s = snd (access_impl os p m s)"
| "after_request os (Flush h lo) s = snd (flush_impl os h lo s)"
| "after_request os (Fsync h d) s = snd (fsync_impl os h d s)"
| "after_request os (Create p n m fl) s = snd (create_impl os p n m fl s)"
| "after_request os (Fallocate h off l m) s = snd (fallocate_impl os h off l m s)"
| "after_request os (Lseek h off w) s = snd (lseek_impl os h off w s)"
| "after_request os (Readlink p) s = snd (readlink_impl os p s)"
| "after_request os (CopyFileRange hi oi ho oo l fl) s = snd (copy_file_range_impl os hi oi ho oo l fl s)"

section \<open>How requests change the tables\<close>

definition same_server :: "('f, 'w) sys \<Rightarrow> ('f, 'w) sys \<Rightarrow> bool" where
  "same_server s t \<longleftrightarrow> server t = server s"

lemma same_server_preorder [simp]: "preorder_rel same_server"
  by (auto simp: preorder_rel_def reflp_def transp_def same_server_def)

lemma keeps_io [keeps_intros]: "keeps same_server (io_call m)"
  by (auto simp: keeps_def same_server_def io_call_def zoom_def split: prod.split)

lemma keeps_nix [keeps_intros]: "keeps same_server (nix_call m)"
  by (auto simp: keeps_def same_server_def nix_call_def zoom_def split: prod.split)

lemma keeps_get_fh [keeps_intros]: "keeps same_server (get_fh h)"
  by (auto simp: keeps_def same_server_def files.get_run split: option.split)

lemma keeps_get_dh [keeps_intros]: "keeps same_server (get_dh h)"
  by (auto simp: keeps_def same_server_def dirs.get_run split: option.split)

lemma keeps_basic [keeps_intros]:
  "keeps same_server root_of" "keeps same_server (real p)" "keeps same_server (child p n)"
  "keeps same_server (lift_conv r)"
  by (auto simp: keeps_def same_server_def root_of_def real_def child_def lift_conv_def)

lemma keeps_attr [keeps_intros]:
  "keeps same_server (get_attr_from_path os p)" "keeps same_server (get_attr_from_file os f)"
  unfolding get_attr_from_path_def get_attr_from_file_def by (intro keeps_intros same_server_preorder)+

lemma keeps_read_loop [keeps_intros]: "keeps same_server (read_loop os f want acc)"
proof (rule keepsI)
  fix s r t
  assume "read_loop os f want acc s = (r, t)"
  then show "same_server s t"
  proof (induction os f want acc s arbitrary: r t rule: read_loop.induct)
    case (1 os f want acc s)
    obtain q u where io: "io_call (file_read os f (want - length acc)) s = (q, u)" by fastforce
    have su: "same_server s u" using keepsD [OF keeps_io io] .
    show ?case
    proof (cases q)
      case (Inl e)
      with 1(2) io su show ?thesis by (subst (asm) read_loop.simps) simp
    next
      case (Inr bs)
      show ?thesis
      proof (cases "bs = [] \<or> length bs > want - length acc")
        case True
        with 1(2) io su Inr show ?thesis by (subst (asm) read_loop.simps) (auto split: if_splits)
      next
        case False
        with 1(2) io Inr have "read_loop os f want (acc @ bs) u = (r, t)"
          by (subst (asm) read_loop.simps) auto
        with 1(1) [OF io [symmetric]] False Inr have "same_server u t" by blast
        with su show ?thesis by (simp add: same_server_def)
      qed
    qed
  qed
qed

lemma keeps_case_prod [keeps_intros]: "(\<And>x y. keeps R (f x y)) \<Longrightarrow> keeps R (case p of (x, y) \<Rightarrow> f x y)"
  by (cases p) simp

text \<open>The requests that leave the server itself as it was.\<close>

fun table_request :: "fs_request \<Rightarrow> bool" where
  "table_request (Opendir _ _) = True"
| "table_request (Releasedir _ _ _) = True"
| "table_request (Open _ _) = True"
| "table_request (Release _ _ _ _) = True"
| "table_request (Create _ _ _ _) = True"
| "table_request _ = False"

lemma keeps_server: "keeps same_server m \<Longrightarrow> server (snd (m s)) = server s"
  by (simp add: keeps_def same_server_def)

lemma other_requests:
  assumes "\<not> table_request q"
  shows "server (after_request os q s) = server s"
  using assms
  by (cases q)
    (auto simp: lookup_impl_def get_attr_impl_eq set_attr_impl_eq mkdir_impl_def unlink_impl_def
      symlink_impl_def rmdir_impl_def rename_impl_def readdir_impl_eq read_impl_eq write_impl_eq
      access_impl_def flush_impl_eq fsync_impl_eq fallocate_impl_eq lseek_impl_eq readlink_impl_def
      copy_file_range_impl_eq Let_def split: option.split
      intro!: keeps_server keeps_intros)

lemma keeps_runD: "keeps same_server m \<Longrightarrow> m s = (r, t) \<Longrightarrow> server t = server s"
  using keepsD [of same_server m s r t] by (simp add: same_server_def)

lemma alloc_run: "alloc_fh s = (Inr (fh_src (server s)), s\<lparr>server := (server s)\<lparr>fh_src := fh_src (server s) + 1\<rparr>\<rparr>)"
  by (simp add: alloc_fh_def)

definition new_file :: "'f Server \<Rightarrow> 'f \<times> path \<Rightarrow> 'f Server" where
  "new_file srv x = srv\<lparr>fh_src := fh_src srv + 1, fh := (fh srv)(fh_src srv \<mapsto> x)\<rparr>"

definition new_dir :: "'f Server \<Rightarrow> Entry list \<times> path \<Rightarrow> 'f Server" where
  "new_dir srv x = srv\<lparr>fh_src := fh_src srv + 1, dh := (dh srv)(fh_src srv \<mapsto> x)\<rparr>"

definition lost_handle :: "'f Server \<Rightarrow> 'f Server" where
  "lost_handle srv = srv\<lparr>fh_src := fh_src srv + 1\<rparr>"

text \<open>
  A program after an allocation that, whatever happens, leaves the server as it is or stores under the
  new handle at its very end.
\<close>

lemma open_run:
  assumes "open_impl os p fl s = (r, t)"
  obtains (failed) e where "r = Inl e" and "server t = server s"
  | (opened) x where "r = Inr (fh_src (server s), fl)" and "server t = new_file (server s) x"
proof -
  let ?m = "bindE (real p) (\<lambda>q. bindE (io_call (os_open os (open_opts fl (fl AND 0x40 \<noteq> 0) None) q)) (\<lambda>f. ok (f, q)))"
  have m: "keeps same_server ?m" by (intro keeps_intros same_server_preorder)
  obtain v u where run: "?m s = (v, u)" by fastforce
  have u: "server u = server s" using keeps_runD [OF m run] .
  have eq: "open_impl os p fl = bindE ?m (\<lambda>(f, q). bindE alloc_fh (\<lambda>h. bindE (put_fh h (f, q)) (\<lambda>_. ok (h, fl))))"
    by (simp add: open_impl_eq bindE_assoc)
  show thesis
  proof (cases v)
    case (Inl e)
    with assms u show thesis by (intro failed [of e]) (simp_all add: eq bindE_Inl [of ?m s e u, OF run [unfolded Inl]])
  next
    case (Inr x)
    obtain f q where x: "x = (f, q)" by fastforce
    have "bindE alloc_fh (\<lambda>h. bindE (put_fh h (f, q)) (\<lambda>_. ok (h, fl))) u = (r, t)"
      using assms x by (simp add: eq bindE_Inr [of ?m s x u, OF run [unfolded Inr]])
    with u show thesis
      by (intro opened [of "(f, q)"]) (auto simp: bindE_app alloc_run put_fh_def new_file_def)
  qed
qed

lemma create_run:
  assumes "create_impl os p n m fl s = (r, t)"
  obtains (failed) e where "r = Inl e" and "server t = server s \<or> server t = lost_handle (server s)"
  | (created) x where "\<And>c. r = Inr c \<Longrightarrow> c_fh c = fh_src (server s)" and "server t = new_file (server s) x"
proof -
  let ?m = "bindE (child p n) (\<lambda>q. bindE (io_call (os_open os (open_opts fl True (Some m)) q)) (\<lambda>f. ok (f, q)))"
  have m: "keeps same_server ?m" by (intro keeps_intros same_server_preorder)
  obtain v u where run: "?m s = (v, u)" by fastforce
  have u: "server u = server s" using keeps_runD [OF m run] .
  have eq: "create_impl os p n m fl = bindE ?m (\<lambda>(f, q).
      bindE alloc_fh (\<lambda>h. bindE (io_call (file_metadata os f)) (\<lambda>meta. bindE (put_fh h (f, q)) (\<lambda>_.
      bindE (lift_conv (metadata_to_grpc meta)) (\<lambda>attr.
      ok \<lparr>c_ttl_ms = 1000, c_attr = Some attr, c_generation = 0, c_fh = h, c_flags = fl\<rparr>)))))"
    by (simp add: create_impl_eq bindE_assoc)
  show thesis
  proof (cases v)
    case (Inl e)
    with assms u show thesis by (intro failed [of e]) (simp_all add: eq bindE_Inl [of ?m s e u, OF run [unfolded Inl]])
  next
    case (Inr x)
    obtain f q where x: "x = (f, q)" by fastforce
    let ?u = "u\<lparr>server := (server u)\<lparr>fh_src := fh_src (server u) + 1\<rparr>\<rparr>"
    obtain md w where meta: "io_call (file_metadata os f) ?u = (md, w)" by fastforce
    have w: "server w = lost_handle (server s)"
      using keeps_runD [OF keeps_io meta] u by (simp add: lost_handle_def)
    have "bindE alloc_fh (\<lambda>h. bindE (io_call (file_metadata os f)) (\<lambda>meta. bindE (put_fh h (f, q)) (\<lambda>_.
        bindE (lift_conv (metadata_to_grpc meta)) (\<lambda>attr.
        ok \<lparr>c_ttl_ms = 1000, c_attr = Some attr, c_generation = 0, c_fh = h, c_flags = fl\<rparr>)))) u = (r, t)"
      using assms x by (simp add: eq bindE_Inr [of ?m s x u, OF run [unfolded Inr]])
    with alloc_run [of u] meta have rt: "(r, t) = (case md of Inl e \<Rightarrow> (Inl e, w)
      | Inr meta \<Rightarrow> bindE (put_fh (fh_src (server u)) (f, q)) (\<lambda>_.
          bindE (lift_conv (metadata_to_grpc meta)) (\<lambda>attr.
            ok \<lparr>c_ttl_ms = 1000, c_attr = Some attr, c_generation = 0, c_fh = fh_src (server u), c_flags = fl\<rparr>)) w)"
      by (simp add: bindE_app)
    show thesis
    proof (cases md)
      case (Inl e)
      with rt w show thesis by (intro failed [of e]) simp_all
    next
      case (Inr meta)
      with rt w u show thesis
        by (intro created [of "(f, q)"])
          (auto simp: bindE_app put_fh_def lift_conv_def new_file_def lost_handle_def split: sum.splits)
    qed
  qed
qed

text \<open>The part of \<open>opendir_impl\<close> between the allocation and the insertion.\<close>

definition list_dir :: "('f, 'w) os \<Rightarrow> string \<Rightarrow> ('f, 'w, Entry list \<times> path) srv" where
  "list_dir os p =
     bindE (real p) (\<lambda>q.
     bindE (io_call (os_read_dir os q)) (\<lambda>ds.
     bindE (lift_conv (dir_entries 0 ds)) (\<lambda>entries.
     bindE (if p = ''/'' then ok entries
            else bindE (get_attr_from_path os q) (\<lambda>dot.
                 bindE (of_opt Panicked (path_parent q)) (\<lambda>up.
                 bindE (get_attr_from_path os up) (\<lambda>dotdot.
                 ok ([mk_entry Directory ''.'' 1 dot, mk_entry Directory ''..'' 1 dotdot] @
                     map shift_offset entries))))) (\<lambda>entries.
     ok (entries, q)))))"

lemma opendir_list_dir:
  "opendir_impl os p fl = bindE alloc_fh (\<lambda>h. bindE (list_dir os p) (\<lambda>x. bindE (put_dh h x) (\<lambda>_. ok (h, fl))))"
  by (simp add: opendir_impl_eq list_dir_def bindE_assoc)

lemma keeps_list_dir: "keeps same_server (list_dir os p)"
  unfolding list_dir_def by (intro keeps_intros same_server_preorder)

lemma opendir_run:
  assumes "opendir_impl os p fl s = (r, t)"
  obtains (failed) e where "r = Inl e" and "server t = lost_handle (server s)"
  | (opened) x u where "r = Inr (fh_src (server s), fl)" and "server t = new_dir (server s) x"
      and "list_dir os p (s\<lparr>server := lost_handle (server s)\<rparr>) = (Inr x, u)" and "world t = world u"
proof -
  let ?s = "s\<lparr>server := lost_handle (server s)\<rparr>"
  obtain v u where run: "list_dir os p ?s = (v, u)" by fastforce
  have u: "server u = lost_handle (server s)" using keeps_runD [OF keeps_list_dir run] by simp
  have eq: "(r, t) = (case v of Inl e \<Rightarrow> (Inl e, u)
      | Inr x \<Rightarrow> bindE (put_dh (fh_src (server s)) x) (\<lambda>_. ok (fh_src (server s), fl)) u)"
    using assms run alloc_run [of s] by (simp add: opendir_list_dir bindE_app lost_handle_def)
  show thesis
  proof (cases v)
    case (Inl e)
    with eq u failed show thesis by simp
  next
    case (Inr x)
    with eq u run show thesis
      by (intro opened [of x u]) (auto simp: bindE_app put_dh_def new_dir_def lost_handle_def)
  qed
qed

section \<open>Handles are never given out twice\<close>

text \<open>After \<open>k\<close> requests: the counter is at most \<open>k\<close>, all handles are below it, and none is in both tables.\<close>

definition handles_ok :: "'f Server \<Rightarrow> bool" where
  "handles_ok srv \<longleftrightarrow> (\<forall>h \<in> dom (fh srv) \<union> dom (dh srv). h < fh_src srv) \<and> dom (fh srv) \<inter> dom (dh srv) = {}"

definition handles_inv :: "path \<Rightarrow> nat \<Rightarrow> ('f, 'w) sys \<Rightarrow> bool" where
  "handles_inv root k s \<longleftrightarrow> handles_ok (server s) \<and> unat (fh_src (server s)) \<le> k \<and> root_path (server s) = root"

definition fs_start :: "path \<Rightarrow> ('f, 'w) sys \<Rightarrow> bool" where
  "fs_start root s \<longleftrightarrow> server s = Server_new root"

definition fs_step :: "('f, 'w) os \<Rightarrow> ('f, 'w) sys \<Rightarrow> ('f, 'w) sys \<Rightarrow> bool" where
  "fs_step os s t \<longleftrightarrow> (\<exists>q. t = after_request os q s)"

text \<open>The effect of any request on the server.\<close>

lemma request_effect:
  obtains "server (after_request os q s) = server s"
  | "server (after_request os q s) = lost_handle (server s)"
  | x where "server (after_request os q s) = new_file (server s) x"
  | x where "server (after_request os q s) = new_dir (server s) x"
  | h where "server (after_request os q s) = (server s)\<lparr>fh := (fh (server s))(h := None)\<rparr>"
  | h where "server (after_request os q s) = (server s)\<lparr>dh := (dh (server s))(h := None)\<rparr>"
proof (cases "table_request q")
  case False
  with other_requests that(1) show thesis by blast
next
  case True
  then show thesis
  proof (cases q)
    case (Opendir p fl)
    then show thesis
      using opendir_run [of os p fl s "fst (opendir_impl os p fl s)" "snd (opendir_impl os p fl s)"] that(2,4)
      by (metis after_request.simps(9) prod.collapse)
  next
    case (Releasedir h fl p)
    then show thesis using that(6) [of h] by (simp add: releasedir_impl_eq)
  next
    case (Open p fl)
    then show thesis
      using open_run [of os p fl s "fst (open_impl os p fl s)" "snd (open_impl os p fl s)"] that(1,3)
      by (metis after_request.simps(12) prod.collapse)
  next
    case (Create p n m fl)
    then show thesis
      using create_run [of os p n m fl s "fst (create_impl os p n m fl s)" "snd (create_impl os p n m fl s)"] that(1-3)
      by (metis after_request.simps(19) prod.collapse)
  next
    case (Release h fl lo flush)
    let ?s = "s\<lparr>server := (server s)\<lparr>fh := (fh (server s))(h := None)\<rparr>\<rparr>"
    have "server (after_request os q s) = server ?s"
      using Release keeps_server [OF keeps_io, of _ ?s]
      by (auto simp: release_impl_eq split: option.splits)
    then show thesis using that(5) [of h] by simp
  qed simp_all
qed

lemma obtain_effect:
  assumes "fs_step os s t"
  shows "server t = server s \<or> server t = lost_handle (server s) \<or> (\<exists>x. server t = new_file (server s) x) \<or>
    (\<exists>x. server t = new_dir (server s) x) \<or> (\<exists>h. server t = (server s)\<lparr>fh := (fh (server s))(h := None)\<rparr>) \<or>
    (\<exists>h. server t = (server s)\<lparr>dh := (dh (server s))(h := None)\<rparr>)"
proof -
  from assms obtain q where "t = after_request os q s" by (auto simp: fs_step_def)
  then show ?thesis by (cases rule: request_effect [of os q s]) auto
qed

lemma release_server:
  "server (snd (release_impl os h fl lo b s)) = (server s)\<lparr>fh := (fh (server s))(h := None)\<rparr>"
  using keeps_server [OF keeps_io, of _ "s\<lparr>server := (server s)\<lparr>fh := (fh (server s))(h := None)\<rparr>\<rparr>"]
  by (auto simp: release_impl_eq split: option.splits)

lemma handles_ok_new:
  assumes "handles_ok srv" and "fh_src srv < fh_src srv + 1"
  shows "handles_ok (lost_handle srv)" and "handles_ok (new_file srv x)" and "handles_ok (new_dir srv y)"
proof -
  have up: "h < fh_src srv \<Longrightarrow> h < fh_src srv + 1" for h using assms(2) by (rule less_trans [rotated])
  have fresh: "fh_src srv \<notin> dom (fh srv)" "fh_src srv \<notin> dom (dh srv)"
    using assms(1) unfolding handles_ok_def by blast+
  show "handles_ok (lost_handle srv)" using assms(1) up by (auto simp: handles_ok_def lost_handle_def)
  show "handles_ok (new_file srv x)"
    using assms up fresh by (auto simp: handles_ok_def new_file_def)
  show "handles_ok (new_dir srv y)"
    using assms up fresh by (auto simp: handles_ok_def new_dir_def)
qed

lemma handles_inv_step:
  assumes "handles_inv root k s" and "Suc k < 2 ^ 64" and "fs_step os s t"
  shows "handles_inv root (Suc k) t"
proof -
  from assms(1) have ok: "handles_ok (server s)" and le: "unat (fh_src (server s)) \<le> k"
    and rt: "root_path (server s) = root"
    by (simp_all add: handles_inv_def)
  note up = unat_succ_bound [OF le assms(2)]
  note new = handles_ok_new [OF ok up(2)]
  from assms(3) obtain q where t: "t = after_request os q s" by (auto simp: fs_step_def)
  show ?thesis
  proof (cases rule: request_effect [of os q s])
    case 1
    with t ok le rt show ?thesis by (simp add: handles_inv_def)
  next
    case 2
    with t new(1) up(1) le rt show ?thesis by (simp add: handles_inv_def lost_handle_def)
  next
    case (3 x)
    with t new(2) up(1) le rt show ?thesis by (simp add: handles_inv_def new_file_def)
  next
    case (4 x)
    with t new(3) up(1) le rt show ?thesis by (simp add: handles_inv_def new_dir_def)
  next
    case (5 h)
    with t ok le rt show ?thesis by (auto simp: handles_inv_def handles_ok_def)
  next
    case (6 h)
    with t ok le rt show ?thesis by (auto simp: handles_inv_def handles_ok_def)
  qed
qed

interpretation handles: counted_system "fs_start root" "fs_step os" "handles_inv root" "2 ^ 64"
  for root :: path and os :: "('f, 'w) os"
proof unfold_locales
  show "handles_inv root 0 s" if "fs_start root s" for s :: "('f, 'w) sys"
    using that by (simp add: fs_start_def handles_inv_def Server_new_def handles_ok_def)
qed (rule handles_inv_step)

section \<open>Closed handles\<close>

text \<open>A handle that was given out and is in neither table any more, after at most \<open>k\<close> requests.\<close>

definition closed_handle :: "u64 \<Rightarrow> nat \<Rightarrow> ('f, 'w) sys \<Rightarrow> bool" where
  "closed_handle h k s \<longleftrightarrow> h < fh_src (server s) \<and> fh (server s) h = None \<and> dh (server s) h = None \<and>
     unat (fh_src (server s)) \<le> k"

lemma closed_handle_step:
  assumes "closed_handle h k s" and "Suc k < 2 ^ 64" and "fs_step os s t"
  shows "closed_handle h (Suc k) t"
proof -
  have lt: "h < fh_src (server s)" and le: "unat (fh_src (server s)) \<le> k"
    using assms(1) by (simp_all add: closed_handle_def)
  note up = unat_succ_bound [OF le assms(2)]
  have "h < fh_src (server s) + 1" using lt up(2) by (rule less_trans)
  with assms(1) up(1) le lt obtain_effect [OF assms(3)] show ?thesis
    by (auto simp: closed_handle_def lost_handle_def new_file_def new_dir_def)
qed

interpretation closed: counted_system "closed_handle h k" "fs_step os" "\<lambda>j. closed_handle h (k + j)" "2 ^ 64 - k"
  for h :: u64 and k :: nat and os :: "('f, 'w) os"
  by unfold_locales (auto intro: closed_handle_step)

lemma closed_by_release:
  assumes "handles_inv root k s"
    and "fh (server s) h \<noteq> None \<and> t = snd (release_impl os h fl lo b s) \<or>
         dh (server s) h \<noteq> None \<and> t = snd (releasedir_impl h fl p s)"
  shows "closed_handle h (Suc k) t"
proof -
  have "h \<in> dom (fh (server s)) \<union> dom (dh (server s))" using assms(2) by auto
  moreover from assms(1) have ok: "handles_ok (server s)" and le: "unat (fh_src (server s)) \<le> k"
    by (simp_all add: handles_inv_def)
  ultimately have lt: "h < fh_src (server s)" by (simp add: handles_ok_def)
  have disj: "fh (server s) h = None \<or> dh (server s) h = None" using ok by (auto simp: handles_ok_def)
  from assms(2) disj have "server t = (server s)\<lparr>fh := (fh (server s))(h := None)\<rparr> \<and> dh (server s) h = None \<or>
      server t = (server s)\<lparr>dh := (dh (server s))(h := None)\<rparr> \<and> fh (server s) h = None"
    by (auto simp: release_server releasedir_impl_eq)
  with lt le show ?thesis by (auto simp: closed_handle_def)
qed

lemma unknown_file:
  assumes "fh (server s) h = None"
  shows "get_attr_impl os q (Some h) fl s = (Inl (Errno EEXIST), s)"
    and "set_attr_impl os q (Some h) (Some attr) s = (Inl (Errno EEXIST), s)"
    and "read_impl os h off n s = (Inl (Errno EEXIST), s)"
    and "write_impl os h off bs fl s = (Inl (Errno EEXIST), s)"
    and "flush_impl os h lo s = (Inl (Errno EEXIST), s)"
    and "fsync_impl os h b s = (Inl (Errno EEXIST), s)"
    and "fallocate_impl os h off len fl s = (Inl (Errno EEXIST), s)"
    and "lseek_impl os h off wh s = (Inl (Errno EEXIST), s)"
    and "copy_file_range_impl os h oi ho oo len fs s = (Inl (Errno EEXIST), s)"
    and "copy_file_range_impl os ho oi h oo len fs s = (Inl (Errno EEXIST), s)"
    and "release_impl os h fl lo b s = (Inr (), s)"
  using assms
  by (simp_all add: get_attr_impl_eq set_attr_impl_eq read_impl_eq write_impl_eq flush_impl_eq
      fsync_impl_eq fallocate_impl_eq lseek_impl_eq release_impl_eq files.get_unknown fun_upd_idem split: option.split)
    (auto simp: copy_file_range_impl_eq bindE_app get_fh_app split: option.split)

lemma unknown_dir:
  assumes "dh (server s) h = None"
  shows "readdir_impl parent h off lo s = (Inl (Errno EEXIST), s)" and "releasedir_impl h fl p s = (Inr (), s)"
  using assms by (simp_all add: readdir_impl_eq releasedir_impl_eq dirs.get_unknown fun_upd_idem)

section \<open>Properties of the handle tables\<close>

text \<open>
  Property C28. Handles are never given out twice: in a server that has served fewer than \<open>2^64\<close>
  requests of any kind, a handle returned by open, create or opendir is in neither table, and no
  handle is both a file and a directory.
\<close>

theorem handles_are_fresh:
  assumes "reaches (fs_start root) (fs_step os) k s" and "k < 2 ^ 64"
  shows "(open_impl os p fl s = (Inr (h, g), t) \<longrightarrow> fh (server s) h = None \<and> dh (server s) h = None) \<and>
    (create_impl os p n m fl s = (Inr c, t) \<longrightarrow> fh (server s) (c_fh c) = None \<and> dh (server s) (c_fh c) = None) \<and>
    (opendir_impl os p fl s = (Inr (h, g), t) \<longrightarrow> fh (server s) h = None \<and> dh (server s) h = None) \<and>
    dom (fh (server s)) \<inter> dom (dh (server s)) = {}"
proof -
  have ok: "handles_ok (server s)"
    using handles.inv_reaches [OF assms] by (simp add: handles_inv_def)
  then have fresh: "fh (server s) (fh_src (server s)) = None" "dh (server s) (fh_src (server s)) = None"
    unfolding handles_ok_def by blast+
  have "h = fh_src (server s)" if "open_impl os p fl s = (Inr (h, g), t)"
    using that by (cases rule: open_run) auto
  moreover have "c_fh c = fh_src (server s)" if "create_impl os p n m fl s = (Inr c, t)"
    using that by (cases rule: create_run) auto
  moreover have "h = fh_src (server s)" if "opendir_impl os p fl s = (Inr (h, g), t)"
    using that by (cases rule: opendir_run) auto
  ultimately show ?thesis using fresh ok by (auto simp: handles_ok_def)
qed

text \<open>The server after opening its file.\<close>

definition opened_sys :: "(path, ram) sys" where
  "opened_sys = after_request ram_os (Open ''/x'' 0) (ram_sys [1, 2, 3])"

lemma opened_reaches: "reaches (fs_start srv_root) (fs_step ram_os) 1 opened_sys"
proof -
  have "reaches (fs_start srv_root) (fs_step ram_os) 0 (ram_sys [1, 2, 3])"
    by (rule reaches_init) (simp add: fs_start_def ram_sys_def)
  then have "reaches (fs_start srv_root) (fs_step ram_os) (Suc 0) opened_sys"
    by (rule reaches_step) (unfold fs_step_def opened_sys_def, blast)
  then show ?thesis by simp
qed

lemma opened_tables:
  "fh (server opened_sys) = [0 \<mapsto> (srv_root @ [Normal ''x''], srv_root @ [Normal ''x''])]"
  "dh (server opened_sys) = Map.empty" "fh_src (server opened_sys) = 1"
  by (simp_all add: opened_sys_def open_impl_eq fs_eval prog_simps)

theorem handles_are_fresh_witness:
  "let t = snd (open_impl ram_os ''/x'' 0 opened_sys)
   in open_impl ram_os ''/x'' 0 opened_sys = (Inr (1, 0), t) \<and> fh (server opened_sys) 1 = None"
proof -
  have run: "open_impl ram_os ''/x'' 0 opened_sys = (Inr (1, 0), snd (open_impl ram_os ''/x'' 0 opened_sys))"
    by (rule run_eqI) (simp add: opened_sys_def open_impl_eq fs_eval prog_simps)
  from handles_are_fresh [OF opened_reaches] run show ?thesis unfolding Let_def by fastforce
qed

text \<open>
  Property C33. A closed handle stays closed: after \<open>release\<close> of an open file or \<open>releasedir\<close> of an open
  directory, and as long as fewer than \<open>2^64\<close> requests have been served in all, whatever requests follow,
  every operation that needs the handle fails with \<open>EEXIST\<close> and changes nothing, on either side of a
  copy, and releasing it again succeeds and changes nothing.
\<close>

theorem closed_handle_stays_closed:
  assumes "reaches (fs_start root) (fs_step os) k s"
    and "fh (server s) h \<noteq> None \<and> t = snd (release_impl os h fl lo b s) \<or>
         dh (server s) h \<noteq> None \<and> t = snd (releasedir_impl h fl p s)"
    and "reaches (\<lambda>x. x = t) (fs_step os) m u" and "Suc k + m < 2 ^ 64"
  shows "get_attr_impl os q (Some h) fl' u = (Inl (Errno EEXIST), u) \<and>
    set_attr_impl os q (Some h) (Some attr) u = (Inl (Errno EEXIST), u) \<and>
    read_impl os h off n u = (Inl (Errno EEXIST), u) \<and>
    write_impl os h off bs fl' u = (Inl (Errno EEXIST), u) \<and>
    flush_impl os h lo' u = (Inl (Errno EEXIST), u) \<and>
    fsync_impl os h b' u = (Inl (Errno EEXIST), u) \<and>
    fallocate_impl os h off len fl' u = (Inl (Errno EEXIST), u) \<and>
    lseek_impl os h off wh u = (Inl (Errno EEXIST), u) \<and>
    copy_file_range_impl os h oi ho oo len fs u = (Inl (Errno EEXIST), u) \<and>
    copy_file_range_impl os ho oi h oo len fs u = (Inl (Errno EEXIST), u) \<and>
    readdir_impl parent h off lo' u = (Inl (Errno EEXIST), u) \<and>
    release_impl os h fl' lo' b' u = (Inr (), u) \<and>
    releasedir_impl h fl' p' u = (Inr (), u)"
proof -
  have "closed_handle h (Suc k) t"
    using handles.inv_reaches [OF assms(1)] closed_by_release [OF _ assms(2)] assms(4) by simp
  then have "reaches (closed_handle h (Suc k)) (fs_step os) m u"
    using assms(3) reaches_weaken [of "\<lambda>x. x = t" "fs_step os" m u "closed_handle h (Suc k)"] by blast
  from closed.inv_reaches [OF this] assms(4) have "fh (server u) h = None" "dh (server u) h = None"
    by (auto simp: closed_handle_def)
  note unknown = unknown_file [OF this(1)] unknown_dir [OF this(2)]
  show ?thesis by (intro conjI unknown)
qed

theorem closed_handle_stays_closed_witness:
  "let t = snd (release_impl ram_os 0 0 0 False opened_sys); u = after_request ram_os (Open ''/x'' 0) t
   in read_impl ram_os 0 0 10 u = (Inl (Errno EEXIST), u)"
proof -
  let ?t = "snd (release_impl ram_os 0 0 0 False opened_sys)"
  let ?u = "after_request ram_os (Open ''/x'' 0) ?t"
  have "reaches (\<lambda>x. x = ?t) (fs_step ram_os) (Suc 0) ?u"
    by (rule reaches_step [OF reaches_init]) (simp, unfold fs_step_def, blast)
  from closed_handle_stays_closed [OF opened_reaches _ this, of 0 0 0 False]
  show ?thesis by (simp add: opened_tables Let_def)
qed

end
