(* ===== verification/Fs_Rpc.thy ===== *)
theory Fs_Rpc
  imports Fs_Handles
begin

text \<open>
  The remote procedures of the file server: \<open>impl Filesystem for Server\<close> in \<open>src/distfs/src/server.rs\<close>
  wraps the result of every operation into a response message. The generated client stub and the
  transport are parameters: a record with one call per procedure, and the documented behaviour of such
  a call. What a response means to the client is the locale \<open>rpc_codec\<close>.
\<close>

section \<open>Responses\<close>

text \<open>Every response message is a \<open>oneof\<close>, absent when the other side left it out.\<close>

datatype 'a result = Ok 'a | RErrno i32

record 'a response =
  result :: "'a result option"

record AttrOk =
  ttl_ms :: u64
  attr :: "Attr option"

record HandleOk =
  hfh :: u64
  hflag :: u32

text \<open>
  \<open>Response { result: Some(impl.await.map(enc).unwrap_or_else(Errno)) }\<close>. A panic of the operation
  unwinds the handler, and a handler that waits for itself does not return: neither gives a response.
\<close>

definition respond :: "('a \<Rightarrow> 'm) \<Rightarrow> ('f, 'w, 'a) srv \<Rightarrow> ('f, 'w, 'm response) srv" where
  "respond enc m = (\<lambda>s. case m s of
      (Inr x, t) \<Rightarrow> (Inr \<lparr>result = Some (Ok (enc x))\<rparr>, t)
    | (Inl (Errno e), t) \<Rightarrow> (Inr \<lparr>result = Some (RErrno e)\<rparr>, t)
    | (Inl Panicked, t) \<Rightarrow> (Inl Panicked, t)
    | (Inl Deadlock, t) \<Rightarrow> (Inl Deadlock, t))"

definition attr_ok :: "Attr \<Rightarrow> AttrOk" where
  "attr_ok a = \<lparr>ttl_ms = 1000, attr = Some a\<rparr>"

definition handle_ok :: "u64 \<times> u32 \<Rightarrow> HandleOk" where
  "handle_ok x = \<lparr>hfh = fst x, hflag = snd x\<rparr>"

section \<open>The procedures of the server\<close>

definition lookup_rpc :: "('f, 'w) os \<Rightarrow> string \<Rightarrow> string \<Rightarrow> ('f, 'w, AttrOk response) srv" where
  "lookup_rpc os parent name = respond attr_ok (lookup_impl os parent name)"

definition get_attr_rpc :: "('f, 'w) os \<Rightarrow> string option \<Rightarrow> u64 option \<Rightarrow> u32 \<Rightarrow> ('f, 'w, AttrOk response) srv" where
  "get_attr_rpc os p h flags = respond attr_ok (get_attr_impl os p h flags)"

definition set_attr_rpc ::
    "('f, 'w) os \<Rightarrow> string option \<Rightarrow> u64 option \<Rightarrow> SettableAttr option \<Rightarrow> ('f, 'w, AttrOk response) srv" where
  "set_attr_rpc os p h a = respond attr_ok (set_attr_impl os p h a)"

definition mkdir_rpc :: "('f, 'w) os \<Rightarrow> string \<Rightarrow> string \<Rightarrow> u32 \<Rightarrow> u32 \<Rightarrow> ('f, 'w, AttrOk response) srv" where
  "mkdir_rpc os parent name mode umask = respond attr_ok (mkdir_impl os parent name mode umask)"

definition unlink_rpc :: "('f, 'w) os \<Rightarrow> string \<Rightarrow> string \<Rightarrow> ('f, 'w, unit response) srv" where
  "unlink_rpc os parent name = respond (\<lambda>x. x) (unlink_impl os parent name)"

definition symlink_rpc :: "('f, 'w) os \<Rightarrow> string \<Rightarrow> string \<Rightarrow> string \<Rightarrow> ('f, 'w, AttrOk response) srv" where
  "symlink_rpc os parent name link_path = respond attr_ok (symlink_impl os parent name link_path)"

definition rmdir_rpc :: "('f, 'w) os \<Rightarrow> string \<Rightarrow> string \<Rightarrow> ('f, 'w, unit response) srv" where
  "rmdir_rpc os parent name = respond (\<lambda>x. x) (rmdir_impl os parent name)"

definition rename_rpc ::
    "('f, 'w) os \<Rightarrow> string \<Rightarrow> string \<Rightarrow> string \<Rightarrow> string \<Rightarrow> u32 \<Rightarrow> ('f, 'w, unit response) srv" where
  "rename_rpc os origin_parent origin_name parent name flag =
     respond (\<lambda>x. x) (rename_impl os origin_parent origin_name parent name flag)"

definition opendir_rpc :: "('f, 'w) os \<Rightarrow> string \<Rightarrow> u32 \<Rightarrow> ('f, 'w, HandleOk response) srv" where
  "opendir_rpc os p flags = respond handle_ok (opendir_impl os p flags)"

definition releasedir_rpc :: "u64 \<Rightarrow> u32 \<Rightarrow> string \<Rightarrow> ('f, 'w, unit response) srv" where
  "releasedir_rpc h flag p = respond (\<lambda>x. x) (releasedir_impl h flag p)"

definition readdir_rpc :: "string \<Rightarrow> u64 \<Rightarrow> u64 \<Rightarrow> u64 \<Rightarrow> ('f, 'w, Entry list response) srv" where
  "readdir_rpc parent h offset lock_owner = respond (\<lambda>x. x) (readdir_impl parent h offset lock_owner)"

definition open_rpc :: "('f, 'w) os \<Rightarrow> string \<Rightarrow> u32 \<Rightarrow> ('f, 'w, HandleOk response) srv" where
  "open_rpc os p flags = respond handle_ok (open_impl os p flags)"

definition read_rpc :: "('f, 'w) os \<Rightarrow> u64 \<Rightarrow> u64 \<Rightarrow> u32 \<Rightarrow> ('f, 'w, u8 list response) srv" where
  "read_rpc os h offset n = respond (\<lambda>x. x) (read_impl os h offset n)"

definition write_rpc :: "('f, 'w) os \<Rightarrow> u64 \<Rightarrow> u64 \<Rightarrow> u8 list \<Rightarrow> u32 \<Rightarrow> ('f, 'w, u32 response) srv" where
  "write_rpc os h offset data flags = respond (\<lambda>x. x) (write_impl os h offset data flags)"

definition release_rpc :: "('f, 'w) os \<Rightarrow> u64 \<Rightarrow> u32 \<Rightarrow> u64 \<Rightarrow> bool \<Rightarrow> ('f, 'w, unit response) srv" where
  "release_rpc os h flags lock_owner flush = respond (\<lambda>x. x) (release_impl os h flags lock_owner flush)"

definition access_rpc :: "('f, 'w) os \<Rightarrow> string \<Rightarrow> u32 \<Rightarrow> ('f, 'w, unit response) srv" where
  "access_rpc os p amask = respond (\<lambda>x. x) (access_impl os p amask)"

definition flush_rpc :: "('f, 'w) os \<Rightarrow> u64 \<Rightarrow> u64 \<Rightarrow> ('f, 'w, unit response) srv" where
  "flush_rpc os h lock_owner = respond (\<lambda>x. x) (flush_impl os h lock_owner)"

definition fsync_rpc :: "('f, 'w) os \<Rightarrow> u64 \<Rightarrow> bool \<Rightarrow> ('f, 'w, unit response) srv" where
  "fsync_rpc os h datasync = respond (\<lambda>x. x) (fsync_impl os h datasync)"

definition create_rpc :: "('f, 'w) os \<Rightarrow> string \<Rightarrow> string \<Rightarrow> u32 \<Rightarrow> u32 \<Rightarrow> ('f, 'w, CreateOk response) srv" where
  "create_rpc os parent name mode flags = respond (\<lambda>x. x) (create_impl os parent name mode flags)"

definition fallocate_rpc :: "('f, 'w) os \<Rightarrow> u64 \<Rightarrow> u64 \<Rightarrow> u64 \<Rightarrow> u32 \<Rightarrow> ('f, 'w, unit response) srv" where
  "fallocate_rpc os h offset len mode = respond (\<lambda>x. x) (fallocate_impl os h offset len mode)"

definition lseek_rpc :: "('f, 'w) os \<Rightarrow> u64 \<Rightarrow> u64 \<Rightarrow> u32 \<Rightarrow> ('f, 'w, u64 response) srv" where
  "lseek_rpc os h offset whence = respond (\<lambda>x. x) (lseek_impl os h offset whence)"

definition readlink_rpc :: "('f, 'w) os \<Rightarrow> string \<Rightarrow> ('f, 'w, string response) srv" where
  "readlink_rpc os p = respond (\<lambda>x. x) (readlink_impl os p)"

definition copy_file_range_rpc ::
    "('f, 'w) os \<Rightarrow> u64 \<Rightarrow> u64 \<Rightarrow> u64 \<Rightarrow> u64 \<Rightarrow> u64 \<Rightarrow> u64 \<Rightarrow> ('f, 'w, u64 response) srv" where
  "copy_file_range_rpc os fh_in offset_in fh_out offset_out len flags =
     respond (\<lambda>x. x) (copy_file_range_impl os fh_in offset_in fh_out offset_out len flags)"

section \<open>The stub\<close>

text \<open>
  \<open>FilesystemClient\<close>, generated from \<open>fs.proto\<close>: one call per procedure, on the state \<open>'s\<close> of the rest of
  the world, failing with a status. A status carries nothing the client looks at.
\<close>

record 's stub =
  call_lookup :: "string \<Rightarrow> string \<Rightarrow> ('s, unit, AttrOk response) prog"
  call_get_attr :: "string option \<Rightarrow> u64 option \<Rightarrow> u32 \<Rightarrow> ('s, unit, AttrOk response) prog"
  call_set_attr :: "string option \<Rightarrow> u64 option \<Rightarrow> SettableAttr option \<Rightarrow> ('s, unit, AttrOk response) prog"
  call_mkdir :: "string \<Rightarrow> string \<Rightarrow> u32 \<Rightarrow> u32 \<Rightarrow> ('s, unit, AttrOk response) prog"
  call_unlink :: "string \<Rightarrow> string \<Rightarrow> ('s, unit, unit response) prog"
  call_symlink :: "string \<Rightarrow> string \<Rightarrow> string \<Rightarrow> ('s, unit, AttrOk response) prog"
  call_rmdir :: "string \<Rightarrow> string \<Rightarrow> ('s, unit, unit response) prog"
  call_rename :: "string \<Rightarrow> string \<Rightarrow> string \<Rightarrow> string \<Rightarrow> u32 \<Rightarrow> ('s, unit, unit response) prog"
  call_opendir :: "string \<Rightarrow> u32 \<Rightarrow> ('s, unit, HandleOk response) prog"
  call_releasedir :: "u64 \<Rightarrow> u32 \<Rightarrow> string \<Rightarrow> ('s, unit, unit response) prog"
  call_readdir :: "string \<Rightarrow> u64 \<Rightarrow> u64 \<Rightarrow> u64 \<Rightarrow> ('s, unit, Entry list response) prog"
  call_open :: "string \<Rightarrow> u32 \<Rightarrow> ('s, unit, HandleOk response) prog"
  call_read :: "u64 \<Rightarrow> u64 \<Rightarrow> u32 \<Rightarrow> ('s, unit, u8 list response) prog"
  call_write :: "u64 \<Rightarrow> u64 \<Rightarrow> u8 list \<Rightarrow> u32 \<Rightarrow> ('s, unit, u32 response) prog"
  call_release :: "u64 \<Rightarrow> u32 \<Rightarrow> u64 \<Rightarrow> bool \<Rightarrow> ('s, unit, unit response) prog"
  call_access :: "string \<Rightarrow> u32 \<Rightarrow> ('s, unit, unit response) prog"
  call_flush :: "u64 \<Rightarrow> u64 \<Rightarrow> ('s, unit, unit response) prog"
  call_fsync :: "u64 \<Rightarrow> bool \<Rightarrow> ('s, unit, unit response) prog"
  call_create :: "string \<Rightarrow> string \<Rightarrow> u32 \<Rightarrow> u32 \<Rightarrow> ('s, unit, CreateOk response) prog"
  call_fallocate :: "u64 \<Rightarrow> u64 \<Rightarrow> u64 \<Rightarrow> u32 \<Rightarrow> ('s, unit, unit response) prog"
  call_lseek :: "u64 \<Rightarrow> u64 \<Rightarrow> u32 \<Rightarrow> ('s, unit, u64 response) prog"
  call_readlink :: "string \<Rightarrow> ('s, unit, string response) prog"
  call_copy_file_range :: "u64 \<Rightarrow> u64 \<Rightarrow> u64 \<Rightarrow> u64 \<Rightarrow> u64 \<Rightarrow> u64 \<Rightarrow> ('s, unit, u64 response) prog"

text \<open>
  What a call does when the handler behind it returns: it delivers the handler's response, or it fails,
  and then the request may or may not have reached the server. If the handler panics the call fails.
  A handler that never returns leaves the call open, so nothing is said.
\<close>

definition delivers :: "('s, unit, 'm) prog \<Rightarrow> ('s, fs_error, 'm) prog \<Rightarrow> bool" where
  "delivers call handler \<longleftrightarrow> (\<forall>s. case handler s of
      (Inr m, t) \<Rightarrow> call s \<in> {(Inr m, t), (Inl (), s), (Inl (), t)}
    | (Inl Panicked, t) \<Rightarrow> call s \<in> {(Inl (), s), (Inl (), t)}
    | (Inl _, t) \<Rightarrow> True)"

text \<open>The transport that never fails by itself.\<close>

definition direct :: "('s, fs_error, 'm) prog \<Rightarrow> ('s, unit, 'm) prog" where
  "direct handler = map_err (\<lambda>_. ()) handler"

lemma direct_delivers: "delivers (direct m) m"
  by (auto simp: delivers_def direct_def map_err_def split: prod.splits sum.splits fs_error.splits)

lemma direct_respond: "fst (m s) = Inr x \<Longrightarrow> fst (direct (respond enc m) s) = Inr \<lparr>result = Some (Ok (enc x))\<rparr>"
  by (cases "m s") (simp add: direct_def map_err_def respond_def)

section \<open>Responses at the client\<close>

text \<open>
  The contract between an encoder of the server and a decoder of the client: a success is converted,
  an error number is passed on, a response without a result is an I/O error.
\<close>

locale rpc_codec =
  fixes enc :: "'a \<Rightarrow> 'm"
    and dec :: "'m response \<Rightarrow> fs_error + 'r"
    and conv :: "'a \<Rightarrow> fs_error + 'r"
  assumes dec_ok: "dec \<lparr>result = Some (Ok (enc x))\<rparr> = conv x"
    and dec_errno: "dec \<lparr>result = Some (RErrno e)\<rparr> = Inl (Errno e)"
    and dec_none: "dec \<lparr>result = None\<rparr> = Inl (Errno EIO)"

text \<open>What the client makes of a call: \<open>call.await.map_err(EIO)?.into_inner()\<close>, then the decoder.\<close>

definition client_op :: "('s, unit, 'm) prog \<Rightarrow> ('m \<Rightarrow> fs_error + 'r) \<Rightarrow> ('s, fs_error, 'r) prog" where
  "client_op call dec = bindE (map_err (\<lambda>_. Errno EIO) call) (\<lambda>m. of_sum (dec m))"

text \<open>What the client should report for an operation of the server that returns.\<close>

definition reported :: "('a \<Rightarrow> fs_error + 'r) \<Rightarrow> fs_error + 'a \<Rightarrow> fs_error + 'r" where
  "reported conv r = (case r of
      Inr x \<Rightarrow> conv x
    | Inl (Errno e) \<Rightarrow> Inl (Errno e)
    | Inl _ \<Rightarrow> Inl (Errno EIO))"

text \<open>
  The promise of an operation \<open>op\<close> of the client over an operation \<open>impl\<close> of the server: when the call
  delivers a response, \<open>op\<close> reports the server's result and leaves the server's state; when the call fails
  it is an I/O error, and the request was served or not.
\<close>

definition carries ::
    "('s, unit, 'm) prog \<Rightarrow> ('a \<Rightarrow> fs_error + 'r) \<Rightarrow> ('s, fs_error, 'a) prog \<Rightarrow> ('s, fs_error, 'r) prog \<Rightarrow> bool" where
  "carries call conv impl op \<longleftrightarrow> (\<forall>s. fst (impl s) \<noteq> Inl Deadlock \<longrightarrow> (case call s of
      (Inr _, _) \<Rightarrow> op s = (reported conv (fst (impl s)), snd (impl s))
    | (Inl _, t) \<Rightarrow> op s = (Inl (Errno EIO), t) \<and> t \<in> {s, snd (impl s)}))"

lemma carriesD:
  assumes "carries call conv impl op" and "impl s = (r, t)" and "r \<noteq> Inl Deadlock"
  shows "fst (call s) = Inr m \<Longrightarrow> op s = (reported conv r, t)"
    and "fst (call s) = Inl e \<Longrightarrow> fst (op s) = Inl (Errno EIO) \<and> snd (op s) \<in> {s, t}"
  using assms(1) [unfolded carries_def, THEN spec, of s] assms(2,3) by (cases "call s"; auto)+

lemma carries_success:
  assumes "carries call Inr impl op" and "op s = (Inr x, t)" and "fst (impl s) \<noteq> Inl Deadlock"
  shows "impl s = (Inr x, t)"
proof -
  obtain r u where run: "impl s = (r, u)" by fastforce
  from carriesD [OF assms(1) run] assms(2,3) run have "reported Inr r = Inr x" "u = t"
    by (cases "fst (call s)"; auto)+
  with run show ?thesis by (auto simp: reported_def split: sum.splits fs_error.splits)
qed

context rpc_codec
begin

lemma op_carries:
  assumes "delivers call (respond enc impl)"
  shows "carries call conv impl (client_op call dec)"
  unfolding carries_def
proof (intro allI impI)
  fix s
  assume nd: "fst (impl s) \<noteq> Inl Deadlock"
  obtain r t where run: "impl s = (r, t)" by fastforce
  have d: "case respond enc impl s of (Inr m, t) \<Rightarrow> call s \<in> {(Inr m, t), (Inl (), s), (Inl (), t)}
    | (Inl Panicked, t) \<Rightarrow> call s \<in> {(Inl (), s), (Inl (), t)} | (Inl _, t) \<Rightarrow> True"
    using assms by (simp add: delivers_def)
  show "case call s of (Inr _, _) \<Rightarrow> client_op call dec s = (reported conv (fst (impl s)), snd (impl s))
    | (Inl _, t) \<Rightarrow> client_op call dec s = (Inl (Errno EIO), t) \<and> t \<in> {s, snd (impl s)}"
  proof (cases r)
    case (Inr x)
    with d run show ?thesis
      by (auto simp: respond_def client_op_def bindE_def map_err_def reported_def dec_ok)
  next
    case (Inl e)
    with d run nd show ?thesis
      by (cases e) (auto simp: respond_def client_op_def bindE_def map_err_def reported_def dec_errno)
  qed
qed

text \<open>A response whose result is missing is reported as an I/O error.\<close>

lemma op_missing: "call s = (Inr \<lparr>result = None\<rparr>, t) \<Longrightarrow> client_op call dec s = (Inl (Errno EIO), t)"
  by (simp add: client_op_def bindE_def map_err_def dec_none)

end

end
