(* ===== verification/Fs_Client.thy ===== *)
theory Fs_Client
  imports Fs_Rpc
begin

text \<open>
  The client of the file system, \<open>impl PathFilesystem for Distfs\<close> in \<open>src/distfs/src/client.rs\<close>: each FUSE
  operation sends one request over the stub and translates the response. The translations satisfy the
  contract of \<open>Fs_Rpc\<close>, so every operation carries the operation of the server behind it.
\<close>

section \<open>Replies\<close>

text \<open>\<open>Duration::from_millis\<close>: seconds and nanoseconds.\<close>

definition duration_from_millis :: "u64 \<Rightarrow> nat \<times> nat" where
  "duration_from_millis ms = (unat ms div 1000, unat ms mod 1000 * 1000000)"

text \<open>\<open>ReplyEntry\<close> and \<open>ReplyAttr\<close> have the same fields.\<close>

record ReplyAttr =
  r_ttl :: "nat \<times> nat"
  r_attr :: FileAttr

record ReplyOpen =
  o_fh :: u64
  o_flags :: u32

record ReplyCreated =
  rc_ttl :: "nat \<times> nat"
  rc_attr :: FileAttr
  rc_generation :: u64
  rc_fh :: u64
  rc_flags :: u32

record DirectoryEntryPlus =
  p_kind :: FuseFileType
  p_name :: string
  p_offset :: i64
  p_attr :: FileAttr
  p_entry_ttl :: "nat \<times> nat"
  p_attr_ttl :: "nat \<times> nat"

section \<open>Translating responses\<close>

definition attr_reply :: "AttrOk response \<Rightarrow> fs_error + ReplyAttr" where
  "attr_reply m = (case result m of
      Some (Ok r) \<Rightarrow> (case attr r of
          Some a \<Rightarrow> map_sum (\<lambda>e. e) (\<lambda>fa. \<lparr>r_ttl = duration_from_millis (ttl_ms r), r_attr = fa\<rparr>) (attr_grpc_to_fuse3 a)
        | None \<Rightarrow> Inl (Errno EIO))
    | Some (RErrno e) \<Rightarrow> Inl (Errno e)
    | None \<Rightarrow> Inl (Errno EIO))"

definition unit_reply :: "unit response \<Rightarrow> fs_error + unit" where
  "unit_reply m = (case result m of
      None \<Rightarrow> Inl (Errno EIO)
    | Some (RErrno e) \<Rightarrow> Inl (Errno e)
    | Some (Ok _) \<Rightarrow> Inr ())"

definition handle_reply :: "HandleOk response \<Rightarrow> fs_error + ReplyOpen" where
  "handle_reply m = (case result m of
      None \<Rightarrow> Inl (Errno EIO)
    | Some (Ok r) \<Rightarrow> Inr \<lparr>o_fh = hfh r, o_flags = hflag r\<rparr>
    | Some (RErrno e) \<Rightarrow> Inl (Errno e))"

text \<open>\<open>ReplyData\<close>, \<open>ReplyWrite\<close>, \<open>ReplyLSeek\<close> and \<open>ReplyCopyFileRange\<close> are their only field.\<close>

definition plain_reply :: "'a response \<Rightarrow> fs_error + 'a" where
  "plain_reply m = (case result m of
      None \<Rightarrow> Inl (Errno EIO)
    | Some (Ok x) \<Rightarrow> Inr x
    | Some (RErrno e) \<Rightarrow> Inl (Errno e))"

text \<open>\<open>CString::new\<close> refuses a string with a zero byte.\<close>

definition cstring_bytes :: "string \<Rightarrow> fs_error + u8 list" where
  "cstring_bytes p = (if char_of (0 :: nat) \<in> set p then Inl (Errno EIO) else Inr (map of_char p))"

definition readlink_reply :: "string response \<Rightarrow> fs_error + u8 list" where
  "readlink_reply m = (case result m of
      None \<Rightarrow> Inl (Errno EIO)
    | Some (Ok p) \<Rightarrow> cstring_bytes p
    | Some (RErrno e) \<Rightarrow> Inl (Errno e))"

definition created_reply :: "CreateOk \<Rightarrow> fs_error + ReplyCreated" where
  "created_reply r = (case c_attr r of
      None \<Rightarrow> Inl (Errno EIO)
    | Some a \<Rightarrow> map_sum (\<lambda>e. e) (\<lambda>fa. \<lparr>rc_ttl = duration_from_millis (c_ttl_ms r), rc_attr = fa,
        rc_generation = c_generation r, rc_fh = c_fh r, rc_flags = c_flags r\<rparr>) (attr_grpc_to_fuse3 a))"

definition create_reply :: "CreateOk response \<Rightarrow> fs_error + ReplyCreated" where
  "create_reply m = (case result m of
      None \<Rightarrow> Inl (Errno EIO)
    | Some (Ok r) \<Rightarrow> created_reply r
    | Some (RErrno e) \<Rightarrow> Inl (Errno e))"

text \<open>
  An entry of a listing: an error number of its own, or the entry with its attributes; a panic in the
  conversion of one of them is a panic of the whole operation.
\<close>

definition entry_plus :: "Entry \<Rightarrow> fs_error + (i32 + DirectoryEntryPlus)" where
  "entry_plus x = (case inner x of
      None \<Rightarrow> Inr (Inl EIO)
    | Some (InnerErrno e) \<Rightarrow> Inr (Inl e)
    | Some (InnerEntry d) \<Rightarrow> (case e_attr d of
        None \<Rightarrow> Inr (Inl EIO)
      | Some a \<Rightarrow> (case attr_grpc_to_fuse3 a of
          Inl (Errno e) \<Rightarrow> Inr (Inl e)
        | Inl x \<Rightarrow> Inl x
        | Inr fa \<Rightarrow> Inr (Inr \<lparr>p_kind = filetype_grpc_to_fuse3 (e_kind d), p_name = e_name d,
            p_offset = e_offset d, p_attr = fa, p_entry_ttl = duration_from_millis (e_entry_ttl_ms d),
            p_attr_ttl = duration_from_millis (e_attr_ttl_ms d)\<rparr>))))"

fun entries_plus :: "Entry list \<Rightarrow> fs_error + (i32 + DirectoryEntryPlus) list" where
  "entries_plus [] = Inr []"
| "entries_plus (x # xs) = (case entry_plus x of
      Inl e \<Rightarrow> Inl e
    | Inr y \<Rightarrow> map_sum (\<lambda>e. e) ((#) y) (entries_plus xs))"

definition readdirplus_reply :: "Entry list response \<Rightarrow> fs_error + (i32 + DirectoryEntryPlus) list" where
  "readdirplus_reply m = (case result m of
      None \<Rightarrow> Inl (Errno EIO)
    | Some (RErrno e) \<Rightarrow> Inl (Errno e)
    | Some (Ok es) \<Rightarrow> entries_plus es)"

section \<open>Operations\<close>

definition fuse_lookup :: "'s stub \<Rightarrow> string \<Rightarrow> string \<Rightarrow> ('s, fs_error, ReplyAttr) prog" where
  "fuse_lookup c parent name =
     client_op (call_lookup c (to_string_lossy parent) (to_string_lossy name)) attr_reply"

definition fuse_getattr :: "'s stub \<Rightarrow> string option \<Rightarrow> u64 option \<Rightarrow> u32 \<Rightarrow> ('s, fs_error, ReplyAttr) prog" where
  "fuse_getattr c p h flags =
     client_op (call_get_attr c (map_option to_string_lossy p) h flags) attr_reply"

definition fuse_setattr :: "'s stub \<Rightarrow> string option \<Rightarrow> u64 option \<Rightarrow> SetAttr \<Rightarrow> ('s, fs_error, ReplyAttr) prog" where
  "fuse_setattr c p h a =
     client_op (call_set_attr c (map_option to_string_lossy p) h (Some (set_attr_fuse3_to_grpc a))) attr_reply"

definition fuse_mkdir :: "'s stub \<Rightarrow> string \<Rightarrow> string \<Rightarrow> u32 \<Rightarrow> u32 \<Rightarrow> ('s, fs_error, ReplyAttr) prog" where
  "fuse_mkdir c parent name mode umask =
     client_op (call_mkdir c (to_string_lossy parent) (to_string_lossy name) mode umask) attr_reply"

definition fuse_unlink :: "'s stub \<Rightarrow> string \<Rightarrow> string \<Rightarrow> ('s, fs_error, unit) prog" where
  "fuse_unlink c parent name =
     client_op (call_unlink c (to_string_lossy parent) (to_string_lossy name)) unit_reply"

definition fuse_readlink :: "'s stub \<Rightarrow> string \<Rightarrow> ('s, fs_error, u8 list) prog" where
  "fuse_readlink c p = client_op (call_readlink c (to_string_lossy p)) readlink_reply"

definition fuse_symlink :: "'s stub \<Rightarrow> string \<Rightarrow> string \<Rightarrow> string \<Rightarrow> ('s, fs_error, ReplyAttr) prog" where
  "fuse_symlink c parent name link_path =
     client_op (call_symlink c (to_string_lossy parent) (to_string_lossy name) (to_string_lossy link_path)) attr_reply"

definition fuse_rmdir :: "'s stub \<Rightarrow> string \<Rightarrow> string \<Rightarrow> ('s, fs_error, unit) prog" where
  "fuse_rmdir c parent name =
     client_op (call_rmdir c (to_string_lossy parent) (to_string_lossy name)) unit_reply"

definition fuse_rename2 ::
    "'s stub \<Rightarrow> string \<Rightarrow> string \<Rightarrow> string \<Rightarrow> string \<Rightarrow> u32 \<Rightarrow> ('s, fs_error, unit) prog" where
  "fuse_rename2 c origin_parent origin_name parent name flags =
     client_op (call_rename c (to_string_lossy origin_parent) (to_string_lossy origin_name)
       (to_string_lossy parent) (to_string_lossy name) flags) unit_reply"

definition fuse_rename :: "'s stub \<Rightarrow> string \<Rightarrow> string \<Rightarrow> string \<Rightarrow> string \<Rightarrow> ('s, fs_error, unit) prog" where
  "fuse_rename c origin_parent origin_name parent name =
     fuse_rename2 c origin_parent origin_name parent name 0"

definition fuse_open :: "'s stub \<Rightarrow> string \<Rightarrow> u32 \<Rightarrow> ('s, fs_error, ReplyOpen) prog" where
  "fuse_open c p flags = client_op (call_open c (to_string_lossy p) flags) handle_reply"

definition fuse_read :: "'s stub \<Rightarrow> u64 \<Rightarrow> u64 \<Rightarrow> u32 \<Rightarrow> ('s, fs_error, u8 list) prog" where
  "fuse_read c h offset n = client_op (call_read c h offset n) plain_reply"

definition fuse_write :: "'s stub \<Rightarrow> u64 \<Rightarrow> u64 \<Rightarrow> u8 list \<Rightarrow> u32 \<Rightarrow> ('s, fs_error, u32) prog" where
  "fuse_write c h offset data flags = client_op (call_write c h offset data flags) plain_reply"

definition fuse_release :: "'s stub \<Rightarrow> u64 \<Rightarrow> u32 \<Rightarrow> u64 \<Rightarrow> bool \<Rightarrow> ('s, fs_error, unit) prog" where
  "fuse_release c h flags lock_owner flush = client_op (call_release c h flags lock_owner flush) unit_reply"

definition fuse_fsync :: "'s stub \<Rightarrow> u64 \<Rightarrow> bool \<Rightarrow> ('s, fs_error, unit) prog" where
  "fuse_fsync c h datasync = client_op (call_fsync c h datasync) unit_reply"

definition fuse_flush :: "'s stub \<Rightarrow> u64 \<Rightarrow> u64 \<Rightarrow> ('s, fs_error, unit) prog" where
  "fuse_flush c h lock_owner = client_op (call_flush c h lock_owner) unit_reply"

definition fuse_access :: "'s stub \<Rightarrow> string \<Rightarrow> u32 \<Rightarrow> ('s, fs_error, unit) prog" where
  "fuse_access c p amask = client_op (call_access c (to_string_lossy p) amask) unit_reply"

definition fuse_create :: "'s stub \<Rightarrow> string \<Rightarrow> string \<Rightarrow> u32 \<Rightarrow> u32 \<Rightarrow> ('s, fs_error, ReplyCreated) prog" where
  "fuse_create c parent name mode flags =
     client_op (call_create c (to_string_lossy parent) (to_string_lossy name) mode flags) create_reply"

definition fuse_fallocate :: "'s stub \<Rightarrow> u64 \<Rightarrow> u64 \<Rightarrow> u64 \<Rightarrow> u32 \<Rightarrow> ('s, fs_error, unit) prog" where
  "fuse_fallocate c h offset len mode = client_op (call_fallocate c h offset len mode) unit_reply"

definition fuse_opendir :: "'s stub \<Rightarrow> string \<Rightarrow> u32 \<Rightarrow> ('s, fs_error, ReplyOpen) prog" where
  "fuse_opendir c p flags = client_op (call_opendir c (to_string_lossy p) flags) handle_reply"

definition fuse_releasedir :: "'s stub \<Rightarrow> string \<Rightarrow> u64 \<Rightarrow> u32 \<Rightarrow> ('s, fs_error, unit) prog" where
  "fuse_releasedir c p h flags = client_op (call_releasedir c h flags (to_string_lossy p)) unit_reply"

definition fuse_readdirplus ::
    "'s stub \<Rightarrow> string \<Rightarrow> u64 \<Rightarrow> u64 \<Rightarrow> u64 \<Rightarrow> ('s, fs_error, (i32 + DirectoryEntryPlus) list) prog" where
  "fuse_readdirplus c parent h offset lock_owner =
     client_op (call_readdir c (to_string_lossy parent) h offset lock_owner) readdirplus_reply"

definition fuse_lseek :: "'s stub \<Rightarrow> u64 \<Rightarrow> u64 \<Rightarrow> u32 \<Rightarrow> ('s, fs_error, u64) prog" where
  "fuse_lseek c h offset whence = client_op (call_lseek c h offset whence) plain_reply"

definition fuse_copy_file_range ::
    "'s stub \<Rightarrow> u64 \<Rightarrow> u64 \<Rightarrow> u64 \<Rightarrow> u64 \<Rightarrow> u64 \<Rightarrow> u64 \<Rightarrow> ('s, fs_error, u64) prog" where
  "fuse_copy_file_range c fh_in offset_in fh_out offset_out len flags =
     client_op (call_copy_file_range c fh_in offset_in fh_out offset_out len flags) plain_reply"

lemmas fuse_defs = fuse_lookup_def fuse_getattr_def fuse_setattr_def fuse_mkdir_def fuse_unlink_def
  fuse_readlink_def fuse_symlink_def fuse_rmdir_def fuse_rename2_def fuse_rename_def fuse_open_def
  fuse_read_def fuse_write_def fuse_release_def fuse_fsync_def fuse_flush_def fuse_access_def
  fuse_create_def fuse_fallocate_def fuse_opendir_def fuse_releasedir_def fuse_readdirplus_def
  fuse_lseek_def fuse_copy_file_range_def

section \<open>The translations satisfy the contract\<close>

text \<open>What the client shows for what the server found.\<close>

definition shown_attr :: "Attr \<Rightarrow> fs_error + ReplyAttr" where
  "shown_attr a = map_sum (\<lambda>e. e) (\<lambda>fa. \<lparr>r_ttl = (1, 0), r_attr = fa\<rparr>) (attr_grpc_to_fuse3 a)"

definition shown_handle :: "u64 \<times> u32 \<Rightarrow> fs_error + ReplyOpen" where
  "shown_handle x = Inr \<lparr>o_fh = fst x, o_flags = snd x\<rparr>"

text \<open>A link target as bytes, unless it contains a zero byte.\<close>

definition shown_link :: "string \<Rightarrow> fs_error + u8 list" where
  "shown_link p = (if list_ex (\<lambda>c. of_char c = (0 :: nat)) p then Inl (Errno EIO) else Inr (map of_char p))"

definition shown_created :: "CreateOk \<Rightarrow> fs_error + ReplyCreated" where
  "shown_created c = (case map_option attr_grpc_to_fuse3 (c_attr c) of
      Some (Inr fa) \<Rightarrow> Inr \<lparr>rc_ttl = (unat (c_ttl_ms c) div 1000, 1000000 * (unat (c_ttl_ms c) mod 1000)),
        rc_attr = fa, rc_generation = c_generation c, rc_fh = c_fh c, rc_flags = c_flags c\<rparr>
    | Some (Inl e) \<Rightarrow> Inl e
    | None \<Rightarrow> Inl (Errno EIO))"

text \<open>
  A listing: an error entry shows its error number; an entry shows its own kind, name and offset, the
  attributes, and the two lifetimes in this order. Attributes that make the conversion panic take the
  whole listing down.
\<close>

definition shown_entry :: "Entry \<Rightarrow> i32 + DirectoryEntryPlus" where
  "shown_entry x = (case inner x of
      Some (InnerEntry d) \<Rightarrow> (case map_option attr_grpc_to_fuse3 (e_attr d) of
          Some (Inr fa) \<Rightarrow> Inr \<lparr>p_kind = filetype_grpc_to_fuse3 (e_kind d), p_name = e_name d, p_offset = e_offset d,
            p_attr = fa,
            p_entry_ttl = (unat (e_entry_ttl_ms d) div 1000, 1000000 * (unat (e_entry_ttl_ms d) mod 1000)),
            p_attr_ttl = (unat (e_attr_ttl_ms d) div 1000, 1000000 * (unat (e_attr_ttl_ms d) mod 1000))\<rparr>
        | Some (Inl (Errno e)) \<Rightarrow> Inl e
        | _ \<Rightarrow> Inl EIO)
    | Some (InnerErrno e) \<Rightarrow> Inl e
    | None \<Rightarrow> Inl EIO)"

definition entry_panics :: "Entry \<Rightarrow> bool" where
  "entry_panics x = (case inner x of
      Some (InnerEntry d) \<Rightarrow> map_option attr_grpc_to_fuse3 (e_attr d) = Some (Inl Panicked)
    | _ \<Rightarrow> False)"

definition shown_entries :: "Entry list \<Rightarrow> fs_error + (i32 + DirectoryEntryPlus) list" where
  "shown_entries es = (if list_ex entry_panics es then Inl Panicked else Inr (map shown_entry es))"

lemma attr_no_wait: "attr_grpc_to_fuse3 a \<noteq> Inl Deadlock"
proof -
  have "need_time ts \<noteq> Inl Deadlock" for ts
    by (auto simp: need_time_def grpc_to_system_def add_duration_def Let_def split: option.splits sum.splits if_splits)
  then show ?thesis by (auto simp: attr_grpc_to_fuse3_def split: sum.splits)
qed

lemma entry_plus_shown:
  "entry_plus x = (if entry_panics x then Inl Panicked else Inr (shown_entry x))"
  using attr_no_wait
  by (auto simp: entry_plus_def entry_panics_def shown_entry_def duration_from_millis_def mult.commute
      split: option.splits Inner.splits sum.splits fs_error.splits)

lemma entries_plus_shown: "entries_plus es = shown_entries es"
  by (induction es) (auto simp: shown_entries_def entry_plus_shown)

lemma created_reply_shown: "created_reply c = shown_created c"
  by (auto simp: created_reply_def shown_created_def duration_from_millis_def map_sum_def mult.commute
      split: option.splits sum.splits)

lemma cstring_bytes_shown: "cstring_bytes p = shown_link p"
proof -
  have "of_char c = (0 :: nat) \<longleftrightarrow> c = char_of (0 :: nat)" for c :: char by (metis char_of_char of_char_of mod_0)
  then show ?thesis by (simp add: cstring_bytes_def shown_link_def list_ex_iff)
qed

interpretation attr_codec: rpc_codec attr_ok attr_reply shown_attr
  by unfold_locales (simp_all add: attr_reply_def attr_ok_def shown_attr_def duration_from_millis_def)

interpretation unit_codec: rpc_codec "\<lambda>x. x" unit_reply Inr
  by unfold_locales (simp_all add: unit_reply_def)

interpretation handle_codec: rpc_codec handle_ok handle_reply shown_handle
  by unfold_locales (simp_all add: handle_reply_def handle_ok_def shown_handle_def)

interpretation plain_codec: rpc_codec "\<lambda>x. x" plain_reply Inr
  by unfold_locales (simp_all add: plain_reply_def)

interpretation readlink_codec: rpc_codec "\<lambda>x. x" readlink_reply shown_link
  by unfold_locales (simp_all add: readlink_reply_def cstring_bytes_shown)

interpretation create_codec: rpc_codec "\<lambda>x. x" create_reply shown_created
  by unfold_locales (simp_all add: create_reply_def created_reply_shown)

interpretation readdir_codec: rpc_codec "\<lambda>x. x" readdirplus_reply shown_entries
  by unfold_locales (simp_all add: readdirplus_reply_def entries_plus_shown)

section \<open>A connected client\<close>

definition connected :: "('f, 'w) os \<Rightarrow> ('f, 'w) sys stub \<Rightarrow> bool" where
  "connected os c \<longleftrightarrow>
     (\<forall>p n. delivers (call_lookup c p n) (lookup_rpc os p n)) \<and>
     (\<forall>p h fl. delivers (call_get_attr c p h fl) (get_attr_rpc os p h fl)) \<and>
     (\<forall>p h a. delivers (call_set_attr c p h a) (set_attr_rpc os p h a)) \<and>
     (\<forall>p n m u. delivers (call_mkdir c p n m u) (mkdir_rpc os p n m u)) \<and>
     (\<forall>p n. delivers (call_unlink c p n) (unlink_rpc os p n)) \<and>
     (\<forall>p n l. delivers (call_symlink c p n l) (symlink_rpc os p n l)) \<and>
     (\<forall>p n. delivers (call_rmdir c p n) (rmdir_rpc os p n)) \<and>
     (\<forall>op on p n fl. delivers (call_rename c op on p n fl) (rename_rpc os op on p n fl)) \<and>
     (\<forall>p fl. delivers (call_opendir c p fl) (opendir_rpc os p fl)) \<and>
     (\<forall>h fl p. delivers (call_releasedir c h fl p) (releasedir_rpc h fl p)) \<and>
     (\<forall>p h off lo. delivers (call_readdir c p h off lo) (readdir_rpc p h off lo)) \<and>
     (\<forall>p fl. delivers (call_open c p fl) (open_rpc os p fl)) \<and>
     (\<forall>h off n. delivers (call_read c h off n) (read_rpc os h off n)) \<and>
     (\<forall>h off bs fl. delivers (call_write c h off bs fl) (write_rpc os h off bs fl)) \<and>
     (\<forall>h fl lo b. delivers (call_release c h fl lo b) (release_rpc os h fl lo b)) \<and>
     (\<forall>p m. delivers (call_access c p m) (access_rpc os p m)) \<and>
     (\<forall>h lo. delivers (call_flush c h lo) (flush_rpc os h lo)) \<and>
     (\<forall>h b. delivers (call_fsync c h b) (fsync_rpc os h b)) \<and>
     (\<forall>p n m fl. delivers (call_create c p n m fl) (create_rpc os p n m fl)) \<and>
     (\<forall>h off len m. delivers (call_fallocate c h off len m) (fallocate_rpc os h off len m)) \<and>
     (\<forall>h off wh. delivers (call_lseek c h off wh) (lseek_rpc os h off wh)) \<and>
     (\<forall>p. delivers (call_readlink c p) (readlink_rpc os p)) \<and>
     (\<forall>hi oi ho oo len fl. delivers (call_copy_file_range c hi oi ho oo len fl) (copy_file_range_rpc os hi oi ho oo len fl))"

text \<open>The stub over the transport that never fails by itself.\<close>

definition direct_stub :: "('f, 'w) os \<Rightarrow> ('f, 'w) sys stub" where
  "direct_stub os = \<lparr>
     call_lookup = (\<lambda>p n. direct (lookup_rpc os p n)),
     call_get_attr = (\<lambda>p h fl. direct (get_attr_rpc os p h fl)),
     call_set_attr = (\<lambda>p h a. direct (set_attr_rpc os p h a)),
     call_mkdir = (\<lambda>p n m u. direct (mkdir_rpc os p n m u)),
     call_unlink = (\<lambda>p n. direct (unlink_rpc os p n)),
     call_symlink = (\<lambda>p n l. direct (symlink_rpc os p n l)),
     call_rmdir = (\<lambda>p n. direct (rmdir_rpc os p n)),
     call_rename = (\<lambda>op on p n fl. direct (rename_rpc os op on p n fl)),
     call_opendir = (\<lambda>p fl. direct (opendir_rpc os p fl)),
     call_releasedir = (\<lambda>h fl p. direct (releasedir_rpc h fl p)),
     call_readdir = (\<lambda>p h off lo. direct (readdir_rpc p h off lo)),
     call_open = (\<lambda>p fl. direct (open_rpc os p fl)),
     call_read = (\<lambda>h off n. direct (read_rpc os h off n)),
     call_write = (\<lambda>h off bs fl. direct (write_rpc os h off bs fl)),
     call_release = (\<lambda>h fl lo b. direct (release_rpc os h fl lo b)),
     call_access = (\<lambda>p m. direct (access_rpc os p m)),
     call_flush = (\<lambda>h lo. direct (flush_rpc os h lo)),
     call_fsync = (\<lambda>h b. direct (fsync_rpc os h b)),
     call_create = (\<lambda>p n m fl. direct (create_rpc os p n m fl)),
     call_fallocate = (\<lambda>h off len m. direct (fallocate_rpc os h off len m)),
     call_lseek = (\<lambda>h off wh. direct (lseek_rpc os h off wh)),
     call_readlink = (\<lambda>p. direct (readlink_rpc os p)),
     call_copy_file_range = (\<lambda>hi oi ho oo len fl. direct (copy_file_range_rpc os hi oi ho oo len fl))\<rparr>"

lemma direct_connected: "connected os (direct_stub os)"
  by (simp add: connected_def direct_stub_def direct_delivers)

text \<open>Writing and reading carry the operations of the server.\<close>

lemma fuse_carries:
  assumes "connected os c"
  shows "carries (call_write c h off ds fl) Inr (write_impl os h off ds fl) (fuse_write c h off ds fl)"
    and "carries (call_read c h off n) Inr (read_impl os h off n) (fuse_read c h off n)"
    and "carries (call_flush c h lo) Inr (flush_impl os h lo) (fuse_flush c h lo)"
  using assms unfolding connected_def write_rpc_def read_rpc_def flush_rpc_def fuse_write_def fuse_read_def fuse_flush_def
  by (auto intro: plain_codec.op_carries unit_codec.op_carries)

lemma fuse_setattr_carries:
  "connected os c \<Longrightarrow> carries (call_set_attr c (map_option to_string_lossy q) h (Some (set_attr_fuse3_to_grpc a))) shown_attr
     (set_attr_impl os (map_option to_string_lossy q) h (Some (set_attr_fuse3_to_grpc a))) (fuse_setattr c q h a)"
  unfolding connected_def set_attr_rpc_def fuse_setattr_def by (auto intro: attr_codec.op_carries)

section \<open>Properties of the client\<close>

text \<open>
  Property C27. The client carries the server: over a connected stub, whenever the call behind one of the 24
  operations of the client delivers a response, the operation reports exactly what the operation of the
  server did (its value as described by the functions \<open>shown_...\<close>, its error number unchanged) and
  leaves the server in the state that operation left; an I/O error of its own it reports only when the
  call failed, and then the server's operation was performed or not. A panic of the server makes the
  call fail. Paths and names reach the server as valid UTF-8.
\<close>

theorem client_carries_server:
  assumes "connected os c"
  shows "carries (call_lookup c (to_string_lossy p) (to_string_lossy n)) shown_attr
      (lookup_impl os (to_string_lossy p) (to_string_lossy n)) (fuse_lookup c p n) \<and>
    carries (call_get_attr c (map_option to_string_lossy q) h fl) shown_attr
      (get_attr_impl os (map_option to_string_lossy q) h fl) (fuse_getattr c q h fl) \<and>
    carries (call_set_attr c (map_option to_string_lossy q) h (Some (set_attr_fuse3_to_grpc a))) shown_attr
      (set_attr_impl os (map_option to_string_lossy q) h (Some (set_attr_fuse3_to_grpc a))) (fuse_setattr c q h a) \<and>
    carries (call_mkdir c (to_string_lossy p) (to_string_lossy n) m u) shown_attr
      (mkdir_impl os (to_string_lossy p) (to_string_lossy n) m u) (fuse_mkdir c p n m u) \<and>
    carries (call_unlink c (to_string_lossy p) (to_string_lossy n)) Inr
      (unlink_impl os (to_string_lossy p) (to_string_lossy n)) (fuse_unlink c p n) \<and>
    carries (call_readlink c (to_string_lossy p)) shown_link
      (readlink_impl os (to_string_lossy p)) (fuse_readlink c p) \<and>
    carries (call_symlink c (to_string_lossy p) (to_string_lossy n) (to_string_lossy l)) shown_attr
      (symlink_impl os (to_string_lossy p) (to_string_lossy n) (to_string_lossy l)) (fuse_symlink c p n l) \<and>
    carries (call_rmdir c (to_string_lossy p) (to_string_lossy n)) Inr
      (rmdir_impl os (to_string_lossy p) (to_string_lossy n)) (fuse_rmdir c p n) \<and>
    carries (call_rename c (to_string_lossy op) (to_string_lossy on) (to_string_lossy p) (to_string_lossy n) fl) Inr
      (rename_impl os (to_string_lossy op) (to_string_lossy on) (to_string_lossy p) (to_string_lossy n) fl)
      (fuse_rename2 c op on p n fl) \<and>
    carries (call_rename c (to_string_lossy op) (to_string_lossy on) (to_string_lossy p) (to_string_lossy n) 0) Inr
      (rename_impl os (to_string_lossy op) (to_string_lossy on) (to_string_lossy p) (to_string_lossy n) 0)
      (fuse_rename c op on p n) \<and>
    carries (call_open c (to_string_lossy p) fl) shown_handle (open_impl os (to_string_lossy p) fl) (fuse_open c p fl) \<and>
    carries (call_read c i off k) Inr (read_impl os i off k) (fuse_read c i off k) \<and>
    carries (call_write c i off bs fl) Inr (write_impl os i off bs fl) (fuse_write c i off bs fl) \<and>
    carries (call_release c i fl lo b) Inr (release_impl os i fl lo b) (fuse_release c i fl lo b) \<and>
    carries (call_fsync c i b) Inr (fsync_impl os i b) (fuse_fsync c i b) \<and>
    carries (call_flush c i lo) Inr (flush_impl os i lo) (fuse_flush c i lo) \<and>
    carries (call_access c (to_string_lossy p) m) Inr (access_impl os (to_string_lossy p) m) (fuse_access c p m) \<and>
    carries (call_create c (to_string_lossy p) (to_string_lossy n) m fl) shown_created
      (create_impl os (to_string_lossy p) (to_string_lossy n) m fl) (fuse_create c p n m fl) \<and>
    carries (call_fallocate c i off len m) Inr (fallocate_impl os i off len m) (fuse_fallocate c i off len m) \<and>
    carries (call_opendir c (to_string_lossy p) fl) shown_handle
      (opendir_impl os (to_string_lossy p) fl) (fuse_opendir c p fl) \<and>
    carries (call_releasedir c i fl (to_string_lossy p)) Inr
      (releasedir_impl i fl (to_string_lossy p)) (fuse_releasedir c p i fl) \<and>
    carries (call_readdir c (to_string_lossy p) i off lo) shown_entries
      (readdir_impl (to_string_lossy p) i off lo) (fuse_readdirplus c p i off lo) \<and>
    carries (call_lseek c i off wh) Inr (lseek_impl os i off wh) (fuse_lseek c i off wh) \<and>
    carries (call_copy_file_range c hi oi ho oo len fs) Inr
      (copy_file_range_impl os hi oi ho oo len fs) (fuse_copy_file_range c hi oi ho oo len fs) \<and>
    utf8_valid (to_string_lossy p) \<and> utf8_valid (to_string_lossy n)"
  unfolding fuse_defs
  using assms [unfolded connected_def lookup_rpc_def get_attr_rpc_def set_attr_rpc_def mkdir_rpc_def unlink_rpc_def
    symlink_rpc_def rmdir_rpc_def rename_rpc_def opendir_rpc_def releasedir_rpc_def readdir_rpc_def
    open_rpc_def read_rpc_def write_rpc_def release_rpc_def access_rpc_def flush_rpc_def fsync_rpc_def
    create_rpc_def fallocate_rpc_def lseek_rpc_def readlink_rpc_def copy_file_range_rpc_def]
  by (intro conjI attr_codec.op_carries unit_codec.op_carries handle_codec.op_carries plain_codec.op_carries
      readlink_codec.op_carries create_codec.op_carries readdir_codec.op_carries lossy_valid) simp_all

theorem client_carries_server_witness:
  "fuse_read (direct_stub ram_os) 0 1 2 opened_sys = (Inr [2, 3], snd (read_impl ram_os 0 1 2 opened_sys))"
proof -
  have res: "fst (read_impl ram_os 0 1 2 opened_sys) = Inr [2, 3]"
    by (simp add: opened_sys_def open_impl_eq read_impl_eq ram_meta_def fs_eval prog_simps)
  note run = run_eqI [OF res]
  have call: "fst (call_read (direct_stub ram_os) 0 1 2 opened_sys) = Inr \<lparr>result = Some (Ok [2, 3])\<rparr>"
    using direct_respond [of "read_impl ram_os 0 1 2" opened_sys "[2, 3]" "\<lambda>x. x", OF res]
    by (simp add: direct_stub_def read_rpc_def)
  have "carries (call_read (direct_stub ram_os) 0 1 2) Inr (read_impl ram_os 0 1 2) (fuse_read (direct_stub ram_os) 0 1 2)"
    by (simp only: client_carries_server [OF direct_connected])
  from carriesD(1) [OF this run _ call] show ?thesis by (simp add: reported_def)
qed

end
