(* ===== verification/Fs_Files.thy ===== *)
theory Fs_Files
  imports Fs_Handles
begin

text \<open>
  Reading, writing and listing: what the operations return under the documented behaviour of files.
\<close>

section \<open>The contract of files\<close>

text \<open>
  \<open>bytes f\<close> is what the file holds once the data handed to \<open>f\<close> has been written, which every operation on
  \<open>f\<close> waits for. \<open>seek\<close> moves the position; \<open>read\<close> returns at most as much as the buffer holds, from the
  position on, and nothing only for an empty buffer or at the end of the file.
\<close>

definition file_law :: "('f, 'w) os \<Rightarrow> ('f \<Rightarrow> 'w \<Rightarrow> u8 list) \<Rightarrow> ('f \<Rightarrow> 'w \<Rightarrow> nat) \<Rightarrow> bool" where
  "file_law os bytes pos \<longleftrightarrow>
     (\<forall>f n w r w'. file_seek os f (SeekStart n) w = (Inr r, w') \<longrightarrow> pos f w' = unat n \<and> bytes f w' = bytes f w) \<and>
     (\<forall>f n w bs w'. file_read os f n w = (Inr bs, w') \<longrightarrow>
        bytes f w' = bytes f w \<and> pos f w' = pos f w + length bs \<and> length bs \<le> n \<and>
        bs = take (length bs) (drop (pos f w) (bytes f w)) \<and>
        (bs = [] \<longrightarrow> n = 0 \<or> length (bytes f w) \<le> pos f w))"

text \<open>
  A \<open>tokio\<close> file accepts a prefix of the data and writes it in the background. \<open>failed f\<close>: what was accepted
  last cannot be written; a flush waits for the background and reports that. Otherwise the data replaces
  the bytes from the position on, or, if the file was opened for appending (\<open>appends f\<close>), goes to its end.
\<close>

definition write_law ::
    "('f, 'w) os \<Rightarrow> ('f \<Rightarrow> 'w \<Rightarrow> u8 list) \<Rightarrow> ('f \<Rightarrow> 'w \<Rightarrow> nat) \<Rightarrow> ('f \<Rightarrow> 'w \<Rightarrow> bool) \<Rightarrow> ('f \<Rightarrow> 'w \<Rightarrow> bool) \<Rightarrow> bool" where
  "write_law os bytes pos appends failed \<longleftrightarrow>
     (\<forall>f n w r w'. file_seek os f (SeekStart n) w = (Inr r, w') \<longrightarrow> appends f w' = appends f w) \<and>
     (\<forall>f bs w k w'. file_write os f bs w = (Inr k, w') \<longrightarrow> k \<le> length bs \<and> (failed f w' \<or>
        (if appends f w then bytes f w' = bytes f w @ take k bs
         else pos f w \<le> length (bytes f w) \<longrightarrow>
           bytes f w' = take (pos f w) (bytes f w) @ take k bs @ drop (pos f w + k) (bytes f w)))) \<and>
     (\<forall>f w w'. file_flush os f w = (Inr (), w') \<longrightarrow> \<not> failed f w \<and> bytes f w' = bytes f w)"

lemma file_lawD:
  assumes "file_law os bytes pos"
  shows "file_seek os f (SeekStart n) w = (Inr r, w') \<Longrightarrow> pos f w' = unat n \<and> bytes f w' = bytes f w"
    and "file_read os f m w = (Inr bs, w') \<Longrightarrow> bytes f w' = bytes f w \<and> pos f w' = pos f w + length bs \<and>
      length bs \<le> m \<and> bs = take (length bs) (drop (pos f w) (bytes f w)) \<and>
      (bs = [] \<longrightarrow> m = 0 \<or> length (bytes f w) \<le> pos f w)"
  using assms unfolding file_law_def by blast+

lemma write_lawD:
  assumes "write_law os bytes pos appends failed"
  shows "file_seek os f (SeekStart n) w = (Inr r, w') \<Longrightarrow> appends f w' = appends f w"
    and "file_write os f ds w = (Inr k, w') \<Longrightarrow> k \<le> length ds"
    and "file_write os f ds w = (Inr k, w') \<Longrightarrow> failed f w' \<or>
      (if appends f w then bytes f w' = bytes f w @ take k ds
       else pos f w \<le> length (bytes f w) \<longrightarrow>
         bytes f w' = take (pos f w) (bytes f w) @ take k ds @ drop (pos f w + k) (bytes f w))"
    and "file_flush os f w = (Inr (), w') \<Longrightarrow> \<not> failed f w \<and> bytes f w' = bytes f w"
  using assms unfolding write_law_def by blast+

lemma io_call_run:
  assumes "io_call m s = (r, t)"
  shows "\<exists>q. m (world s) = (q, world t) \<and> r = map_sum (\<lambda>e. Errno (unwrap_or e EACCES)) (\<lambda>x. x) q \<and> server t = server s"
  using assms by (auto simp: io_call_def zoom_def map_err_def split: prod.splits sum.splits)

lemma io_call_Inr:
  assumes "io_call m s = (Inr x, t)"
  shows "m (world s) = (Inr x, world t)" and "server t = server s"
  using io_call_run [OF assms] by (auto split: sum.splits simp: map_sum_def) (case_tac q; simp)+

lemma io_call_Inl: "io_call m s = (Inl x, t) \<Longrightarrow> \<exists>e. x = Errno e"
  using io_call_run [of m s "Inl x" t] by (auto simp: map_sum_def) (case_tac q; simp)

section \<open>Reading\<close>

text \<open>
  The state of the loop: \<open>acc\<close> is what the file holds from \<open>off\<close> on, as far as it has been read.
\<close>

definition reading :: "('f \<Rightarrow> 'w \<Rightarrow> u8 list) \<Rightarrow> ('f \<Rightarrow> 'w \<Rightarrow> nat) \<Rightarrow> 'f \<Rightarrow> u8 list \<Rightarrow> nat \<Rightarrow> u8 list \<Rightarrow> ('f, 'w) sys \<Rightarrow> bool" where
  "reading bytes pos f B off acc s \<longleftrightarrow> bytes f (world s) = B \<and> pos f (world s) = off + length acc \<and>
     acc = take (length acc) (drop off B)"

lemma reading_done:
  assumes "reading bytes pos f B off acc s" and "length acc \<le> want"
    and "want - length acc = 0 \<or> length B \<le> off + length acc"
  shows "acc = take want (drop off B)"
proof (cases "want - length acc = 0")
  case True
  with assms show ?thesis by (simp add: reading_def)
next
  case False
  with assms(3) have "length (drop off B) \<le> length acc" by simp
  with assms(1,2) show ?thesis by (simp add: reading_def)
qed

lemma reading_more:
  assumes "reading bytes pos f B off acc s" and "bs = take (length bs) (drop (off + length acc) B)"
    and "bytes f (world t) = B" and "pos f (world t) = off + length acc + length bs"
  shows "reading bytes pos f B off (acc @ bs) t"
proof -
  have "acc @ bs = take (length acc) (drop off B) @ take (length bs) (drop (length acc) (drop off B))"
    using assms(1,2) by (simp add: reading_def add.commute)
  also have "\<dots> = take (length acc + length bs) (drop off B)" by (simp add: take_add)
  also have "\<dots> = take (length (acc @ bs)) (drop off B)" by (simp only: length_append)
  finally have "acc @ bs = take (length (acc @ bs)) (drop off B)" .
  moreover have "pos f (world t) = off + length (acc @ bs)" using assms(4) by simp
  ultimately show ?thesis unfolding reading_def using assms(3) by blast
qed

lemma read_loop_slice:
  assumes "file_law os bytes pos" and "reading bytes pos f B off acc s" and "length acc \<le> want"
    and "read_loop os f want acc s = (r, t)"
  shows "(\<exists>e. r = Inl (Errno e)) \<or> r = Inr (take want (drop off B)) \<and> bytes f (world t) = B"
  using assms
proof (induction os f want acc s arbitrary: r t rule: read_loop.induct)
  case (1 os f want acc s)
  obtain q u where io: "io_call (file_read os f (want - length acc)) s = (q, u)" by fastforce
  note run = 1(5) [unfolded read_loop.simps [of os f want acc s] io]
  show ?case
  proof (cases q)
    case (Inl e)
    with run io_call_Inl [OF io [unfolded Inl]] show ?thesis by auto
  next
    case (Inr bs)
    note fr = file_lawD(2) [OF 1(2) io_call_Inr(1) [OF io [unfolded Inr]]]
    have p: "pos f (world s) = off + length acc" "bytes f (world s) = B" using 1(3) by (simp_all add: reading_def)
    show ?thesis
    proof (cases "bs = []")
      case True
      with run Inr have rt: "r = Inr acc" "t = u" by auto
      have "acc = take want (drop off B)"
        using fr True p by (intro reading_done [OF 1(3,4)]) auto
      with rt fr p show ?thesis by simp
    next
      case False
      have le: "\<not> length bs > want - length acc" using fr by simp
      with run Inr False have go: "read_loop os f want (acc @ bs) u = (r, t)" by simp
      have "reading bytes pos f B off (acc @ bs) u"
        using fr p by (intro reading_more [OF 1(3)]) auto
      with 1(1) [OF io [symmetric] Inr False le 1(2) _ _ go] le 1(4) show ?thesis by simp
    qed
  qed
qed

lemma read_impl_slice:
  assumes "file_law os bytes pos" and "fh (server s) h = Some (f, p)" and "read_impl os h off n s = (r, t)"
  shows "(\<exists>e. r = Inl (Errno e)) \<or> r = Inr (take (unat n) (drop (unat off) (bytes f (world s))))"
proof -
  let ?B = "bytes f (world s)"
  obtain v u where sk: "io_call (file_seek os f (SeekStart off)) s = (v, u)" by fastforce
  obtain v' u' where rl: "read_loop os f (unat n) [] u = (v', u')" by fastforce
  obtain v'' u'' where md: "io_call (file_metadata os f) u' = (v'', u'')" by fastforce
  have rt: "(r, t) = (case v of Inl e \<Rightarrow> (Inl e, u) | Inr _ \<Rightarrow>
      (case v' of Inl e \<Rightarrow> (Inl e, u') | Inr data \<Rightarrow>
        (case v'' of Inl e \<Rightarrow> (Inl e, u'') | Inr _ \<Rightarrow> (Inr data, u''))))"
    using assms(2,3) sk rl md
    by (auto simp: read_impl_eq files.get_run bindE_app simp del: read_loop.simps split: sum.splits)
  show ?thesis
  proof (cases v)
    case (Inl e)
    with rt io_call_Inl [OF sk [unfolded Inl]] show ?thesis by auto
  next
    case (Inr x)
    note sk' = file_lawD(1) [OF assms(1) io_call_Inr(1) [OF sk [unfolded Inr]]]
    then have "reading bytes pos f ?B (unat off) [] u" by (simp add: reading_def)
    from read_loop_slice [OF assms(1) this _ rl] have "(\<exists>e. v' = Inl (Errno e)) \<or> v' = Inr (take (unat n) (drop (unat off) ?B))"
      by auto
    with rt Inr io_call_Inl [of "file_metadata os f" u' _ u''] md show ?thesis
      by (cases v'') auto
  qed
qed

section \<open>Writing\<close>

text \<open>
  A write within the file, or at the end of a file opened for appending: unless it fails in the background,
  \<open>k\<close> bytes of the data are in the file from the offset on.
\<close>

definition within :: "('f \<Rightarrow> 'w \<Rightarrow> u8 list) \<Rightarrow> ('f \<Rightarrow> 'w \<Rightarrow> bool) \<Rightarrow> 'f \<Rightarrow> 'w \<Rightarrow> nat \<Rightarrow> bool" where
  "within bytes appends f w off \<longleftrightarrow>
     (if appends f w then off = length (bytes f w) else off \<le> length (bytes f w))"

lemma write_impl_run:
  assumes "file_law os bytes pos" and "write_law os bytes pos appends failed"
    and "fh (server s) h = Some (f, p)" and "write_impl os h off ds fl s = (Inr w, t)"
    and "within bytes appends f (world s) (unat off)"
  obtains k where "k \<le> length ds" and "w = of_nat k" and "server t = server s" and
    "failed f (world t) \<or>
     bytes f (world t) = take (unat off) (bytes f (world s)) @ take k ds @ drop (unat off + k) (bytes f (world s))"
proof -
  from assms(3,4) obtain x u k where sk: "io_call (file_seek os f (SeekStart off)) s = (Inr x, u)"
    and wr: "io_call (file_write os f ds) u = (Inr k, t)" and w: "w = of_nat k"
    by (auto simp: write_impl_eq files.get_known elim!: bindE_InrD)
  note sk' = file_lawD(1) [OF assms(1) io_call_Inr(1) [OF sk]] write_lawD(1) [OF assms(2) io_call_Inr(1) [OF sk]]
  note wr' = write_lawD(2,3) [OF assms(2) io_call_Inr(1) [OF wr]]
  have "failed f (world t) \<or>
     bytes f (world t) = take (unat off) (bytes f (world s)) @ take k ds @ drop (unat off + k) (bytes f (world s))"
    using wr'(2) sk' assms(5) by (auto simp: within_def split: if_splits)
  with wr'(1) w io_call_Inr(2) [OF sk] io_call_Inr(2) [OF wr] show thesis by (intro that [of k]) simp_all
qed

lemma flush_impl_run:
  assumes "write_law os bytes pos appends failed"
    and "fh (server s) h = Some (f, p)" and "flush_impl os h lo s = (Inr (), t)"
  shows "\<not> failed f (world s)" and "bytes f (world t) = bytes f (world s)" and "server t = server s"
proof -
  have fl: "io_call (file_flush os f) s = (Inr (), t)"
    using assms(2,3) by (simp add: flush_impl_eq files.get_known)
  from write_lawD(4) [OF assms(1) io_call_Inr(1) [OF fl]] io_call_Inr(2) [OF fl]
  show "\<not> failed f (world s)" "bytes f (world t) = bytes f (world s)" "server t = server s" by simp_all
qed

text \<open>What was written and flushed, a following \<open>read_impl\<close> at the same offset returns first.\<close>

lemma write_impl_then_read:
  assumes "file_law os bytes pos" and "write_law os bytes pos appends failed"
    and "fh (server s) h = Some (f, p)"
    and "write_impl os h off ds fl s = (Inr w, t)" and "within bytes appends f (world s) (unat off)"
    and "length ds < 2 ^ 32" and "flush_impl os h lo t = (Inr (), t')"
    and "read_impl os h off n t' = (Inr data, u)" and "unat w \<le> unat n"
  shows "take (unat w) data = take (unat w) ds \<and> unat w \<le> length ds"
proof -
  obtain k where k: "k \<le> length ds" "w = of_nat k" "server t = server s" "failed f (world t) \<or>
      bytes f (world t) = take (unat off) (bytes f (world s)) @ take k ds @ drop (unat off + k) (bytes f (world s))"
    using write_impl_run [OF assms(1-5)] .
  have fh: "fh (server t) h = Some (f, p)" using assms(3) k(3) by simp
  note flushed = flush_impl_run [OF assms(2) fh assms(7)]
  have off: "unat off \<le> length (bytes f (world s))" using assms(5) by (auto simp: within_def split: if_splits)
  have w: "unat w = k" using k(1,2) assms(6) by (simp add: unat_of_nat)
  from read_impl_slice [OF assms(1) _ assms(8), of f p] fh flushed
  have "data = take (unat n) (drop (unat off) (bytes f (world t)))" by auto
  with k(1,4) w flushed(1) off assms(9) show ?thesis by (simp add: min_def)
qed

section \<open>Listing\<close>

lemma dir_entry_offset:
  "dir_entry n d = Inr x \<Longrightarrow> inner x = Some (InnerEntry e) \<Longrightarrow> e_offset e = 1 + of_nat n"
  by (auto simp: dir_entry_def errno_entry_def mk_entry_def split: sum.splits)

lemma dir_entries_offsets:
  assumes "dir_entries n ds = Inr es" and "i < length es" and "inner (es ! i) = Some (InnerEntry e)"
  shows "e_offset e = 1 + of_nat (n + i)"
  using assms
proof (induction n ds arbitrary: es i rule: dir_entries.induct)
  case (2 n d ds)
  then obtain x xs where x: "dir_entry n d = Inr x" "dir_entries (Suc n) ds = Inr xs" "es = x # xs"
    by (auto split: sum.splits simp: map_sum_def)
  show ?case
  proof (cases i)
    case 0
    with 2(4) x dir_entry_offset [OF x(1)] show ?thesis by simp
  next
    case (Suc j)
    with 2(1) [OF x(1) x(2), of j] 2(3,4) x(3) show ?thesis by simp
  qed
qed simp

lemma shift_offset_entry:
  "inner (shift_offset x) = Some (InnerEntry e) \<Longrightarrow> \<exists>e'. inner x = Some (InnerEntry e') \<and> e_offset e = e_offset e' + 2"
  by (auto simp: shift_offset_def split: option.splits Inner.splits)

text \<open>The offset of an entry is its place in the listing, counted from one, except for \<open>..\<close>.\<close>

lemma list_dir_offsets:
  assumes "list_dir os p s = (Inr (es, q), t)" and "i < length es" and "inner (es ! i) = Some (InnerEntry e)"
    and "p = ''/'' \<or> i \<noteq> 1"
  shows "e_offset e = of_nat (Suc i)"
proof -
  from assms(1) obtain ds xs where ds: "dir_entries 0 ds = Inr xs"
    and es: "p = ''/'' \<and> es = xs \<or> p \<noteq> ''/'' \<and> (\<exists>a b. es =
      [mk_entry Directory ''.'' 1 a, mk_entry Directory ''..'' 1 b] @ map shift_offset xs)"
    by (auto simp: list_dir_def lift_conv_def elim!: bindE_InrD split: if_splits) blast+
  show ?thesis
  proof (cases "p = ''/''")
    case True
    with es assms(2,3) dir_entries_offsets [OF ds, of i e] show ?thesis by auto
  next
    case False
    with es obtain a b where es: "es = [mk_entry Directory ''.'' 1 a, mk_entry Directory ''..'' 1 b] @ map shift_offset xs"
      by auto
    show ?thesis
    proof (cases i)
      case 0
      with es assms(3) show ?thesis by (auto simp: mk_entry_def)
    next
      case (Suc j)
      with False assms(4) obtain k where i: "i = Suc (Suc k)" by (cases j) auto
      with es assms(2,3) have k: "k < length xs" "inner (shift_offset (xs ! k)) = Some (InnerEntry e)" by auto
      from shift_offset_entry [OF k(2)] dir_entries_offsets [OF ds k(1)] i show ?thesis
        by (auto simp: algebra_simps)
    qed
  qed
qed

lemma readdir_run:
  "dh (server s) h = Some (es, q) \<Longrightarrow> readdir_impl parent h off lo s = (Inr (drop (unat off) es), s)"
  by (simp add: readdir_impl_eq dirs.get_known)

section \<open>Properties of reading, writing and listing\<close>

text \<open>
  Property C25. \<open>read_impl\<close> on an open file returns, unless a system call fails, exactly the bytes of the
  file from the requested offset on, up to the requested size or the end of the file, however the reads
  are cut into pieces; it never panics.
\<close>

theorem read_returns_slice:
  assumes "file_law os bytes pos" and "fh (server s) h = Some (f, p)"
  shows "(\<exists>e. fst (read_impl os h off n s) = Inl (Errno e)) \<or>
    fst (read_impl os h off n s) = Inr (take (unat n) (drop (unat off) (bytes f (world s))))"
proof -
  obtain r t where run: "read_impl os h off n s = (r, t)" by fastforce
  from read_impl_slice [OF assms run] run show ?thesis by simp
qed

lemma ram_file_law: "file_law ram_os ram_bytes (\<lambda>f w. ram_pos w f)"
  unfolding file_law_def
proof (intro conjI allI impI)
  fix f :: path and n :: u64 and w r w'
  assume "file_seek ram_os f (SeekStart n) w = (Inr r, w')"
  then show "ram_pos w' f = unat n" "ram_bytes f w' = ram_bytes f w"
    by (auto simp: ram_os_def ram_seek_def ram_bytes_def)
next
  fix f :: path and n :: nat and w bs w'
  assume "file_read ram_os f n w = (Inr bs, w')"
  then have bs: "bs = take n (drop (ram_pos w f) (ram_bytes f w))"
    and w': "w' = w\<lparr>ram_pos := (ram_pos w)(f := ram_pos w f + length bs)\<rparr>"
    by (auto simp: ram_os_def ram_read_def Let_def)
  show "ram_bytes f w' = ram_bytes f w" "ram_pos w' f = ram_pos w f + length bs"
    by (simp_all add: w' ram_bytes_def)
  show "length bs \<le> n" "bs = take (length bs) (drop (ram_pos w f) (ram_bytes f w))"
    by (simp_all add: bs min_def)
  show "n = 0 \<or> length (ram_bytes f w) \<le> ram_pos w f" if "bs = []" using that bs by auto
qed

lemma ram_write_law:
  "write_law ram_os ram_bytes (\<lambda>f w. ram_pos w f) (\<lambda>f w. opt_append (ram_opts w f)) (\<lambda>_ _. False)"
  by (auto simp: write_law_def ram_os_def ram_seek_def ram_write_def ram_bytes_def Let_def split: if_splits)

lemma opened_handle:
  "fh (server opened_sys) 0 = Some (srv_root @ [Normal ''x''], srv_root @ [Normal ''x''])"
  "ram_bytes (srv_root @ [Normal ''x'']) (world opened_sys) = [1, 2, 3]"
  by (simp_all add: opened_tables) (simp add: opened_sys_def open_impl_eq fs_eval prog_simps)

theorem read_returns_slice_witness:
  "(\<exists>e. fst (read_impl ram_os 0 1 10 opened_sys) = Inl (Errno e)) \<or>
   fst (read_impl ram_os 0 1 10 opened_sys) = Inr [2, 3]"
  using read_returns_slice [OF ram_file_law opened_handle(1), of 1 10] by (simp add: opened_handle(2))

text \<open>
  Property C29. Listings can be resumed: after \<open>opendir\<close>, \<open>readdir\<close> at any offset returns the rest of the
  listing from there, and at the offset stored in an entry it returns exactly the entries after that
  one. The only exception is the entry \<open>..\<close>, the second one outside the root directory.
\<close>

theorem readdir_resumes:
  assumes "opendir_impl os p fl s = (Inr (h, g), t)"
  shows "\<exists>es. (\<forall>off. readdir_impl parent h off lo t = (Inr (drop (unat off) es), t)) \<and>
    (length es < 2 ^ 63 \<longrightarrow> (\<forall>i < length es. \<forall>e. inner (es ! i) = Some (InnerEntry e) \<longrightarrow> p = ''/'' \<or> i \<noteq> 1 \<longrightarrow>
       readdir_impl parent h (e_offset e) lo t = (Inr (drop (Suc i) es), t)))"
  using assms
proof (cases rule: opendir_run)
  case (opened x u)
  obtain es q where x: "x = (es, q)" by fastforce
  have d: "dh (server t) h = Some (es, q)" using opened(1,2) x by (simp add: new_dir_def)
  have "unat (e_offset e) = Suc i"
    if "length es < 2 ^ 63" "i < length es" "inner (es ! i) = Some (InnerEntry e)" "p = ''/'' \<or> i \<noteq> 1" for i e
    using list_dir_offsets [OF opened(3) [unfolded x] that(2-4)] that(1,2)
    by (simp only: unat_of_nat) simp
  with readdir_run [OF d] show ?thesis by auto
qed simp

definition listed_sys :: "(path, ram) sys" where
  "listed_sys = \<lparr>server = Server_new srv_root,
     world = \<lparr>ram_files = Map.empty, ram_pos = (\<lambda>_. 0), ram_opts = (\<lambda>_. read_only),
       ram_list = [Inr \<lparr>d_name = ''x'', d_type = Inr 0x81A4, d_meta = Inr (ram_meta [])\<rparr>,
                   Inr \<lparr>d_name = ''y'', d_type = Inr 0x81A4, d_meta = Inr (ram_meta [])\<rparr>]\<rparr>\<rparr>"

theorem readdir_resumes_witness:
  "let t = snd (opendir_impl ram_os ''/'' 0 listed_sys)
   in \<exists>es. (\<forall>off. readdir_impl [] 0 off 0 t = (Inr (drop (unat off) es), t))"
proof -
  have run: "opendir_impl ram_os ''/'' 0 listed_sys = (Inr (0, 0), snd (opendir_impl ram_os ''/'' 0 listed_sys))"
    by (rule run_eqI) (simp add: opendir_impl_eq listed_sys_def fs_eval prog_simps dir_entry_def
        std_to_grpc_def metadata_to_grpc_def ram_meta_def file_tests s_ifmt_def)
  from readdir_resumes [OF run, of "[]" 0] show ?thesis unfolding Let_def by blast
qed

end
