(* ===== verification/Fs_Mux.thy ===== *)
theory Fs_Mux
  imports Prelude
begin

text \<open>
  The pool of connections of \<open>src/distfs/src/mux.rs\<close> and its set-up in \<open>Distfs::new\<close>
  (\<open>src/distfs/src/client.rs\<close>). Every operation of the client leases one connection for the time of its
  call. Which of several free mutexes \<open>select_all\<close> returns is a parameter.
\<close>

section \<open>Pool\<close>

record 'c mutex =
  content :: 'c
  locked :: bool

type_synonym 'c pool = "'c mutex list"

definition Pool_new :: "'c list \<Rightarrow> 'c pool" where
  "Pool_new cs = map (\<lambda>c. \<lparr>content = c, locked = False\<rparr>) cs"

definition free_at :: "'c pool \<Rightarrow> nat list" where
  "free_at p = filter (\<lambda>i. \<not> locked (p ! i)) [0..<length p]"

text \<open>
  \<open>select_all\<close> over the lock futures: it panics on no futures at all, waits while no mutex is free, and
  returns the guard of a free one with its index. The other futures are dropped.
\<close>

datatype 'c lease = NoFutures | Pending | Leased nat "'c pool"

definition Pool_get :: "(nat list \<Rightarrow> nat) \<Rightarrow> 'c pool \<Rightarrow> 'c lease" where
  "Pool_get pick p =
     (if p = [] then NoFutures
      else if free_at p = [] then Pending
      else (let i = pick (free_at p) in Leased i (p[i := (p ! i)\<lparr>locked := True\<rparr>])))"

text \<open>Dropping a \<open>Leased\<close> drops its guard.\<close>

definition Leased_drop :: "nat \<Rightarrow> 'c pool \<Rightarrow> 'c pool" where
  "Leased_drop i p = p[i := (p ! i)\<lparr>locked := False\<rparr>]"

text \<open>\<open>Deref\<close> and \<open>DerefMut\<close> of \<open>Leased\<close>: the content of its mutex.\<close>

definition Leased_deref :: "nat \<Rightarrow> 'c pool \<Rightarrow> 'c" where
  "Leased_deref i p = content (p ! i)"

section \<open>Connecting\<close>

text \<open>\<open>iter(0..n).then(connect).collect()\<close>: every connection is tried, one after the other.\<close>

fun connect_all :: "('s, 'e, 'c) prog \<Rightarrow> nat \<Rightarrow> 's \<Rightarrow> ('e + 'c) list \<times> 's" where
  "connect_all connect 0 s = ([], s)"
| "connect_all connect (Suc n) s =
     (case connect s of (r, t) \<Rightarrow> case connect_all connect n t of (rs, u) \<Rightarrow> (r # rs, u))"

text \<open>\<open>collect::<Result<_, _>>()\<close>: the first error, or all values.\<close>

fun collect_results :: "('e + 'c) list \<Rightarrow> 'e + 'c list" where
  "collect_results [] = Inr []"
| "collect_results (Inl e # rs) = Inl e"
| "collect_results (Inr c # rs) = map_sum (\<lambda>e. e) ((#) c) (collect_results rs)"

definition Distfs_new :: "('s, 'e, 'c) prog \<Rightarrow> nat \<Rightarrow> ('s, 'e, 'c pool) prog" where
  "Distfs_new connect replica = (\<lambda>s. case connect_all connect replica s of
     (rs, t) \<Rightarrow> (map_sum (\<lambda>e. e) Pool_new (collect_results rs), t))"

lemma connect_all_length: "length (fst (connect_all connect n s)) = n"
  by (induction n arbitrary: s) (auto split: prod.splits, metis fst_conv)

lemma collect_results_Inr: "collect_results rs = Inr cs \<Longrightarrow> rs = map Inr cs"
proof (induction rs arbitrary: cs rule: collect_results.induct)
  case (3 c rs)
  then show ?case by (cases "collect_results rs") auto
qed auto

lemma Distfs_new_ready:
  assumes "Distfs_new connect n s = (Inr p, t)"
  shows "length p = n \<and> free_at p = [0..<n]"
proof -
  obtain rs u where c: "connect_all connect n s = (rs, u)" by fastforce
  with assms obtain cs where cs: "collect_results rs = Inr cs" and p: "p = Pool_new cs"
    by (cases "collect_results rs") (auto simp: Distfs_new_def)
  from connect_all_length [of connect n s] c collect_results_Inr [OF cs] have "length cs = n" by simp
  then show ?thesis by (auto simp: p Pool_new_def free_at_def intro!: filter_True)
qed

section \<open>Leases over time\<close>

text \<open>The pool together with the indices of the leases that are alive.\<close>

record 'c pool_sys =
  mutexes :: "'c pool"
  leases :: "nat list"

text \<open>The choice of \<open>select_all\<close> may differ from call to call.\<close>

definition picks :: "(nat list \<Rightarrow> nat) \<Rightarrow> bool" where
  "picks pick \<longleftrightarrow> (\<forall>xs. xs \<noteq> [] \<longrightarrow> pick xs \<in> set xs)"

inductive pool_step :: "'c pool_sys \<Rightarrow> 'c pool_sys \<Rightarrow> bool" where
  take_lease: "picks pick \<Longrightarrow> Pool_get pick (mutexes s) = Leased i p \<Longrightarrow>
    pool_step s \<lparr>mutexes = p, leases = i # leases s\<rparr>"
| drop_lease: "i \<in> set (leases s) \<Longrightarrow>
    pool_step s \<lparr>mutexes = Leased_drop i (mutexes s), leases = remove1 i (leases s)\<rparr>"

definition pool_init :: "'c list \<Rightarrow> 'c pool_sys \<Rightarrow> bool" where
  "pool_init cs s \<longleftrightarrow> s = \<lparr>mutexes = Pool_new cs, leases = []\<rparr>"

text \<open>The locked mutexes are exactly the leased ones, each leased once; the connections do not change.\<close>

definition pool_inv :: "'c list \<Rightarrow> nat \<Rightarrow> 'c pool_sys \<Rightarrow> bool" where
  "pool_inv cs k s \<longleftrightarrow> map content (mutexes s) = cs \<and> distinct (leases s) \<and>
     (\<forall>i < length cs. locked (mutexes s ! i) \<longleftrightarrow> i \<in> set (leases s)) \<and> (\<forall>i \<in> set (leases s). i < length cs)"

lemma free_at_set: "i \<in> set (free_at p) \<longleftrightarrow> i < length p \<and> \<not> locked (p ! i)"
  by (auto simp: free_at_def)

lemma Pool_get_Leased:
  assumes "picks pick" and "Pool_get pick p = Leased i q"
  shows "i < length p" and "\<not> locked (p ! i)" and "q = p[i := (p ! i)\<lparr>locked := True\<rparr>]"
proof -
  from assms(2) have "free_at p \<noteq> []" "i = pick (free_at p)" "q = p[i := (p ! i)\<lparr>locked := True\<rparr>]"
    by (auto simp: Pool_get_def Let_def split: if_splits)
  moreover from this assms(1) have "i \<in> set (free_at p)" by (auto simp: picks_def)
  ultimately show "i < length p" "\<not> locked (p ! i)" "q = p[i := (p ! i)\<lparr>locked := True\<rparr>]"
    by (simp_all add: free_at_set)
qed

lemma same_contents: "i < length p \<Longrightarrow> content x = content (p ! i) \<Longrightarrow> map content (p[i := x]) = map content p"
  by (simp add: map_update list_update_same_conv)

lemma pool_inv_step:
  assumes "pool_inv cs k s" and "pool_step s t"
  shows "pool_inv cs (Suc k) t"
  using assms(2)
proof cases
  case (take_lease pick i p)
  note g = Pool_get_Leased [OF take_lease(2,3)]
  have len: "length (mutexes s) = length cs" using assms(1) by (auto simp: pool_inv_def)
  have "map content p = cs" using assms(1) g(1) by (simp add: g(3) same_contents pool_inv_def)
  then show ?thesis using assms(1) g len
    by (auto simp: pool_inv_def take_lease(1) nth_list_update)
next
  case (drop_lease i)
  have len: "length (mutexes s) = length cs" using assms(1) by (auto simp: pool_inv_def)
  have i: "i < length (mutexes s)" using assms(1) drop_lease(2) len by (auto simp: pool_inv_def)
  then have "map content (Leased_drop i (mutexes s)) = cs"
    using assms(1) by (simp add: Leased_drop_def same_contents pool_inv_def)
  then show ?thesis using assms(1) len i
    by (auto simp: pool_inv_def drop_lease(1) Leased_drop_def nth_list_update dest: notin_set_remove1)
qed

lemma pool_inv_init: "pool_init cs s \<Longrightarrow> pool_inv cs 0 s"
  by (auto simp: pool_init_def pool_inv_def Pool_new_def comp_def)

interpretation leasing: counted_system "pool_init cs" pool_step "pool_inv cs" limit
  for cs :: "'c list" and limit :: nat
  by unfold_locales (auto intro: pool_inv_init pool_inv_step)

lemma leases_bounded:
  assumes "pool_inv cs k s"
  shows "length (leases s) \<le> length cs"
    and "free_at (mutexes s) = [] \<longleftrightarrow> length (leases s) = length cs"
proof -
  note inv = assms [unfolded pool_inv_def]
  have d: "distinct (leases s)" and sub: "set (leases s) \<subseteq> {..<length cs}" and len: "length (mutexes s) = length cs"
    using inv by auto
  have "card (set (leases s)) \<le> card {..<length cs}" using sub by (intro card_mono) auto
  with d show le: "length (leases s) \<le> length cs" by (simp add: distinct_card)
  have free: "set (free_at (mutexes s)) = {..<length cs} - set (leases s)"
    using inv len by (auto simp: free_at_set)
  have "card ({..<length cs} - set (leases s)) = length cs - length (leases s)"
    using d sub by (simp add: card_Diff_subset distinct_card)
  with free have "card (set (free_at (mutexes s))) = length cs - length (leases s)" by simp
  then show "free_at (mutexes s) = [] \<longleftrightarrow> length (leases s) = length cs"
    using le by (metis List.finite_set card_0_eq diff_is_0_eq le_antisym le_refl set_empty)
qed

lemma get_fresh:
  assumes "pool_inv cs k s" and "picks pick" and "Pool_get pick (mutexes s) = Leased i p"
  shows "i \<notin> set (leases s) \<and> Leased_deref i p = cs ! i"
proof -
  note g = Pool_get_Leased [OF assms(2,3)]
  have len: "length (mutexes s) = length cs" using assms(1) by (auto simp: pool_inv_def)
  have "Leased_deref i p = map content (mutexes s) ! i" using g by (simp add: Leased_deref_def)
  moreover have "i \<notin> set (leases s)" using g(1,2) assms(1) len by (auto simp: pool_inv_def)
  ultimately show ?thesis using assms(1) by (auto simp: pool_inv_def)
qed

lemma Pool_get_Pending: "p \<noteq> [] \<Longrightarrow> Pool_get pick p = Pending \<longleftrightarrow> free_at p = []"
  by (simp add: Pool_get_def Let_def)

lemma Pool_get_some: "p \<noteq> [] \<Longrightarrow> free_at p \<noteq> [] \<Longrightarrow> \<exists>i q. Pool_get pick p = Leased i q"
  by (simp add: Pool_get_def Let_def)

section \<open>Properties of the pool\<close>

text \<open>
  Property C38. Leases are exclusive: whatever the order in which operations take and drop leases, no
  connection is leased twice at a time, at most as many leases are alive as there are connections,
  \<open>get\<close> returns at once exactly while fewer are alive, and then with the connection of a fresh index; while
  all are leased it waits. So calls that never return use up the pool for good.
\<close>

theorem pool_leases_exclusive:
  assumes "reaches (pool_init cs) pool_step k s" and "cs \<noteq> []" and "picks pick"
  shows "distinct (leases s) \<and> length (leases s) \<le> length cs \<and>
    (length (leases s) < length cs \<longleftrightarrow>
      (\<exists>i p. Pool_get pick (mutexes s) = Leased i p \<and> i \<notin> set (leases s) \<and> Leased_deref i p = cs ! i)) \<and>
    (length (leases s) = length cs \<longleftrightarrow> Pool_get pick (mutexes s) = Pending)"
proof -
  have inv: "pool_inv cs k s" using leasing.inv_reaches [OF assms(1), of "Suc k"] by simp
  then have ne: "mutexes s \<noteq> []" and d: "distinct (leases s)" using assms(2) by (auto simp: pool_inv_def)
  note b = leases_bounded [OF inv] and pend = Pool_get_Pending [OF ne, of pick]
  have "length (leases s) < length cs \<longleftrightarrow> free_at (mutexes s) \<noteq> []" using b by auto
  then show ?thesis
    using b pend d Pool_get_some [OF ne, of pick] get_fresh [OF inv assms(3)] by (metis lease.distinct(5))
qed

lemma picks_hd: "picks hd"
  by (simp add: picks_def)

theorem pool_leases_exclusive_witness:
  "let s = \<lparr>mutexes = [\<lparr>content = ''a'', locked = True\<rparr>, \<lparr>content = ''b'', locked = False\<rparr>], leases = [0]\<rparr>
   in reaches (pool_init [''a'', ''b'']) pool_step (Suc 0) s \<and>
      (\<exists>i p. Pool_get hd (mutexes s) = Leased i p \<and> i \<noteq> 0 \<and> Leased_deref i p = [''a'', ''b''] ! i)"
proof -
  let ?init = "\<lparr>mutexes = Pool_new [''a'', ''b''], leases = []\<rparr>"
  let ?s = "\<lparr>mutexes = [\<lparr>content = ''a'', locked = True\<rparr>, \<lparr>content = ''b'', locked = False\<rparr>], leases = [0]\<rparr>"
  have "Pool_get hd (mutexes ?init) = Leased 0 (mutexes ?s)"
    by (simp add: Pool_get_def Pool_new_def free_at_def)
  from take_lease [OF picks_hd this] have "pool_step ?init ?s" by simp
  then have r: "reaches (pool_init [''a'', ''b'']) pool_step (Suc 0) ?s"
    by (intro reaches_step [OF reaches_init, of _ ?init]) (simp_all add: pool_init_def)
  from pool_leases_exclusive [OF r _ picks_hd]
  have "\<exists>i p. Pool_get hd (mutexes ?s) = Leased i p \<and> i \<noteq> 0 \<and> Leased_deref i p = [''a'', ''b''] ! i" by auto
  with r show ?thesis by (simp only: Let_def)
qed

end
