(* ===== verification/Fs_Waits.thy ===== *)
theory Fs_Waits
  imports Fs_Handles
begin

text \<open>
  Requests that wait for themselves: which ones do, and what the locks they keep mean for the requests that
  come after them.
\<close>

section \<open>Requests that wait\<close>

text \<open>The request ends in a wait for a lock that is never released.\<close>

fun waits :: "('f, 'w) os \<Rightarrow> fs_request \<Rightarrow> ('f, 'w) sys \<Rightarrow> bool" where
  "waits os (Lookup p n) s = (fst (lookup_impl os p n s) = Inl Deadlock)"
| "waits os (GetAttr p h fl) s = (fst (get_attr_impl os p h fl s) = Inl Deadlock)"
| "waits os (SetAttr p h a) s = (fst (set_attr_impl os p h a s) = Inl Deadlock)"
| "waits os (Mkdir p n m u) s = (fst (mkdir_impl os p n m u s) = Inl Deadlock)"
| "waits os (Unlink p n) s = (fst (unlink_impl os p n s) = Inl Deadlock)"
| "waits os (MkSymlink p n l) s = (fst (symlink_impl os p n l s) = Inl Deadlock)"
| "waits os (Rmdir p n) s = (fst (rmdir_impl os p n s) = Inl Deadlock)"
| "waits os (Rename op on p n fl) s = (fst (rename_impl os op on p n fl s) = Inl Deadlock)"
| "waits os (Opendir p fl) s = (fst (opendir_impl os p fl s) = Inl Deadlock)"
| "waits os (Releasedir h fl p) s = (fst (releasedir_impl h fl p s) = Inl Deadlock)"
| "waits os (Readdir p h off lo) s = (fst (readdir_impl p h off lo s) = Inl Deadlock)"
| "waits os (Open p fl) s = (fst (open_impl os p fl s) = Inl Deadlock)"
| "waits os (Read h off n) s = (fst (read_impl os h off n s) = Inl Deadlock)"
| "waits os (Write h off bs fl) s = (fst (write_impl os h off bs fl s) = Inl Deadlock)"
| "waits os (Release h fl lo fs) s = (fst (release_impl os h fl lo fs s) = Inl Deadlock)"
| "waits os (Access p m) s = (fst (access_impl os p m s) = Inl Deadlock)"
| "waits os (Flush h lo) s = (fst (flush_impl os h lo s) = Inl Deadlock)"
| "waits os (Fsync h d) s = (fst (fsync_impl os h d s) = Inl Deadlock)"
| "waits os (Create p n m fl) s = (fst (create_impl os p n m fl s) = Inl Deadlock)"
| "waits os (Fallocate h off l m) s = (fst (fallocate_impl os h off l m s) = Inl Deadlock)"
| "waits os (Lseek h off w) s = (fst (lseek_impl os h off w s) = Inl Deadlock)"
| "waits os (Readlink p) s = (fst (readlink_impl os p s) = Inl Deadlock)"
| "waits os (CopyFileRange hi oi ho oo l fl) s = (fst (copy_file_range_impl os hi oi ho oo l fl s) = Inl Deadlock)"

lemma impl_no_wait:
  "no_wait (lookup_impl os p n)" "no_wait (get_attr_impl os q h fl)" "no_wait (set_attr_impl os q h a)"
  "no_wait (mkdir_impl os p n m u)" "no_wait (unlink_impl os p n)" "no_wait (symlink_impl os p n l)"
  "no_wait (rmdir_impl os p n)" "no_wait (rename_impl os op on p n fl)" "no_wait (opendir_impl os p fl)"
  "no_wait (releasedir_impl i fl p)" "no_wait (readdir_impl p i off lo)" "no_wait (open_impl os p fl)"
  "no_wait (read_impl os i off k)" "no_wait (write_impl os i off bs fl)" "no_wait (release_impl os i fl lo b)"
  "no_wait (access_impl os p m)" "no_wait (flush_impl os i lo)" "no_wait (create_impl os p n m fl)"
  "no_wait (fallocate_impl os i off len m)" "no_wait (lseek_impl os i off wh)" "no_wait (readlink_impl os p)"
  unfolding lookup_impl_def get_attr_impl_eq set_attr_impl_eq mkdir_impl_def unlink_impl_def symlink_impl_def
    rmdir_impl_def rename_impl_def opendir_impl_eq releasedir_impl_eq readdir_impl_eq open_impl_eq read_impl_eq
    write_impl_eq release_impl_eq access_impl_def flush_impl_eq create_impl_eq fallocate_impl_eq lseek_impl_eq
    readlink_impl_def Let_def
  by (intro no_wait_intros; simp)+

lemmas impl_returns = impl_no_wait [unfolded no_wait_def, rule_format]

lemma no_wait_copy: "hi \<noteq> ho \<Longrightarrow> no_wait (copy_file_range_impl os hi oi ho oo len fl)"
  unfolding copy_file_range_impl_eq by simp (intro no_wait_intros; simp)

lemma copy_same: "fst (copy_file_range_impl os h oi h oo len fl s) =
    (if fh (server s) h = None then Inl (Errno EEXIST) else Inl Deadlock)"
  by (auto simp: copy_file_range_impl_eq bindE_app get_fh_app split: option.split)







section \<open>Properties of the locks\<close>

text \<open>
  Property C36. Exactly two kinds of request wait for themselves, and so never return: \<open>fsync\<close> on an open
  file, which takes the lock of the file a second time while it holds it, and \<open>copy_file_range\<close> when
  source and destination are the same open handle. No other request, in any state and whatever the
  operating system answers, waits for a lock that it holds.
\<close>

theorem only_two_requests_wait:
  "waits os q s \<longleftrightarrow> (case q of
      Fsync h _ \<Rightarrow> fh (server s) h \<noteq> None
    | CopyFileRange hi _ ho _ _ _ \<Rightarrow> hi = ho \<and> fh (server s) hi \<noteq> None
    | _ \<Rightarrow> False)"
proof (cases q)
  case (Fsync h d)
  then show ?thesis by (simp add: fsync_impl_eq bindE_app get_fh_app split: option.split)
next
  case (CopyFileRange hi oi ho oo len fl)
  then show ?thesis
    using no_wait_copy [of hi ho os oi oo len fl] by (cases "hi = ho") (auto simp: no_wait_def copy_same)
qed (simp_all add: impl_returns)



end
