(* ===== verification/Fs_System.thy ===== *)
theory Fs_System
  imports Fs_Client Fs_Files Fs_Mux Fs_Waits
begin

text \<open>
  The file system as a whole: an operation of the client leases a connection of the pool, calls the server
  over it and translates the answer; the server works on the files of the operating system.
\<close>

section \<open>Operations over the pool\<close>

text \<open>
  \<open>self.client.get().await.<call>(..).await\<close>: the lease is a temporary of the statement and is dropped after
  the answer. \<^term>\<open>None\<close> while no connection is free.
\<close>

definition over_pool ::
    "(nat list \<Rightarrow> nat) \<Rightarrow> ('s stub \<Rightarrow> ('s, fs_error, 'r) prog) \<Rightarrow> 's stub pool \<times> 's \<Rightarrow>
     ((fs_error + 'r) \<times> 's stub pool \<times> 's) option" where
  "over_pool pick op x = (case x of (p, s) \<Rightarrow> (case Pool_get pick p of
      Leased i q \<Rightarrow> (case op (Leased_deref i q) s of (r, t) \<Rightarrow> Some (r, Leased_drop i q, t))
    | _ \<Rightarrow> None))"

lemma over_pool_run:
  assumes "picks pick" and "over_pool pick op (p, s) = Some (r, p', t)"
  obtains c where "c \<in> content ` set p" and "op c s = (r, t)" and "p' = p"
proof -
  from assms(2) obtain i q where g: "Pool_get pick p = Leased i q"
    and run: "op (Leased_deref i q) s = (r, t)" and p': "p' = Leased_drop i q"
    by (auto simp: over_pool_def split: lease.splits prod.splits)
  note l = Pool_get_Leased [OF assms(1) g]
  have c: "Leased_deref i q = content (p ! i)" using l by (simp add: Leased_deref_def)
  have "p' = p" using l p' by (simp add: Leased_drop_def list_update_same_conv)
  with that [of "content (p ! i)"] l(1) run c show thesis by simp
qed

section \<open>Changing the size of a file\<close>

text \<open>\<open>File::set_len\<close> is documented to fail on a file that is not open for writing.\<close>

definition read_only_law :: "('f, 'w) os \<Rightarrow> bool" where
  "read_only_law os \<longleftrightarrow> (\<forall>p f n w w'. os_open os read_only p w = (Inr f, w') \<longrightarrow>
     (\<exists>e. fst (file_set_len os f n w') = Inl e))"

definition always_fails :: "('s, 'e, 'r) prog \<Rightarrow> bool" where
  "always_fails m \<longleftrightarrow> (\<forall>s. \<exists>e. fst (m s) = Inl e)"

lemma always_failsD: "always_fails m \<Longrightarrow> m s \<noteq> (Inr x, t)"
  by (metis always_fails_def fst_conv sum.distinct(1))

lemma always_fails_bindE:
  "always_fails m \<Longrightarrow> always_fails (bindE m f)" "(\<And>x. always_fails (f x)) \<Longrightarrow> always_fails (bindE m f)"
  "always_fails m \<Longrightarrow> bindE m f = bindE m g"
proof -
  show "always_fails m \<Longrightarrow> always_fails (bindE m f)" "(\<And>x. always_fails (f x)) \<Longrightarrow> always_fails (bindE m f)"
    by (auto simp: always_fails_def bindE_app split: prod.split sum.split) (metis Inl_Inr_False fst_conv)+
  assume "always_fails m"
  then show "bindE m f = bindE m g"
    by (auto simp: fun_eq_iff bindE_app dest: always_failsD split: prod.split sum.split)
qed

lemma set_len_fails:
  "read_only_law os \<Longrightarrow> always_fails (bindE (os_open os read_only p) (\<lambda>f. file_set_len os f n))"
  by (auto simp: always_fails_def read_only_law_def bindE_app split: prod.split sum.split)

lemma set_size_fails:
  assumes "read_only_law os" and "s_size sa = Some n"
  shows "always_fails (set_attr_by_path os p sa)"
    and "set_attr_by_path os p sa = set_attr_by_path os p (sa\<lparr>s_mtime := None, s_atime := None, s_mode := None\<rparr>)"
proof -
  note len = set_len_fails [OF assms(1), of p n]
  show "always_fails (set_attr_by_path os p sa)"
    unfolding set_attr_by_path_def assms(2) when_some_def
    by simp (intro always_fails_bindE(2) always_fails_bindE(1) len)
  show "set_attr_by_path os p sa = set_attr_by_path os p (sa\<lparr>s_mtime := None, s_atime := None, s_mode := None\<rparr>)"
    unfolding set_attr_by_path_def when_some_def
    by (simp add: assms(2), subst always_fails_bindE(3) [OF len, of _ "\<lambda>_. ok ()"], simp add: ok_def)
qed

lemma always_fails_io: "always_fails m \<Longrightarrow> always_fails (io_call m)"
  by (auto simp: always_fails_def io_call_def zoom_def map_err_def split: prod.split sum.split)
    (metis Inl_Inr_False fst_conv)

lemma set_attr_impl_size_fails:
  assumes "read_only_law os" and "s_size sa = Some n"
  shows "always_fails (set_attr_impl os p h (Some sa))"
proof -
  have fails: "always_fails (bindE (io_call (set_attr_by_path os q sa)) F)" for q and F :: "unit \<Rightarrow> ('a, 'b, Attr) srv"
    by (intro always_fails_bindE(1) always_fails_io set_size_fails [OF assms])
  show ?thesis
  proof (cases h)
    case (Some i)
    have "always_fails (case x of (f, stored) \<Rightarrow> bindE root_of (\<lambda>root.
        bindE (io_call (set_attr_by_path os (real_path_of root stored) sa)) (\<lambda>_. get_attr_from_file os f)))" for x
      by (cases x) (simp, rule always_fails_bindE(2), rule fails)
    with Some show ?thesis
      by (cases p) (simp_all add: set_attr_impl_eq always_fails_bindE(2))
  next
    case None
    then show ?thesis
      by (cases p) (simp add: set_attr_impl_eq always_fails_def, simp add: set_attr_impl_eq, rule always_fails_bindE(2), rule fails)
  qed
qed

section \<open>Properties of the file system\<close>

text \<open>
  Property C26. What was written is read back, from one end of the system to the other: when all connections
  of the pool lead to the server, a write of the client to an open file reports \<open>w\<close> bytes, a flush of it
  succeeds, and a following read at this offset that asks for at least as many bytes succeeds, then the data
  start with the bytes written, and all three operations have returned their connection to the pool. The
  offset is within the file, and its very end if the file was opened for appending.
\<close>

theorem client_write_then_read:
  assumes "file_law os bytes pos" and "write_law os bytes pos appends failed"
    and "fh (server s) h = Some (f, q)"
    and "picks pick" and "\<forall>c \<in> content ` set p. connected os c"
    and "within bytes appends f (world s) (unat off)" and "length ds < 2 ^ 32"
    and "over_pool pick (\<lambda>c. fuse_write c h off ds fl) (p, s) = Some (Inr w, p1, s1)"
    and "over_pool pick (\<lambda>c. fuse_flush c h lo) (p1, s1) = Some (Inr (), p2, s2)"
    and "over_pool pick (\<lambda>c. fuse_read c h off n) (p2, s2) = Some (Inr data, p3, s3)"
    and "unat w \<le> unat n"
  shows "take (unat w) data = take (unat w) ds \<and> unat w \<le> length ds \<and> p3 = p"
proof -
  obtain c where c: "c \<in> content ` set p" "fuse_write c h off ds fl s = (Inr w, s1)" "p1 = p"
    using over_pool_run [OF assms(4,8)] .
  obtain e where e: "e \<in> content ` set p" "fuse_flush e h lo s1 = (Inr (), s2)" "p2 = p"
    using over_pool_run [OF assms(4,9)] c(3) by metis
  obtain d where d: "d \<in> content ` set p" "fuse_read d h off n s2 = (Inr data, s3)" "p3 = p"
    using over_pool_run [OF assms(4,10)] e(3) by metis
  have w: "write_impl os h off ds fl s = (Inr w, s1)"
    using carries_success [OF fuse_carries(1) c(2) impl_returns(14)] assms(5) c(1) by blast
  have f: "flush_impl os h lo s1 = (Inr (), s2)"
    using carries_success [OF fuse_carries(3) e(2) impl_returns(17)] assms(5) e(1) by blast
  have "read_impl os h off n s2 = (Inr data, s3)"
    using carries_success [OF fuse_carries(2) d(2) impl_returns(13)] assms(5) d(1) by blast
  from write_impl_then_read [OF assms(1-3) w assms(6,7) f this assms(11)] d(3) show ?thesis by simp
qed

definition ram_pool :: "(path, ram) sys stub pool" where
  "ram_pool = Pool_new [direct_stub ram_os, direct_stub ram_os]"

lemma ram_pool_connected: "\<forall>c \<in> content ` set ram_pool. connected ram_os c"
  by (simp add: ram_pool_def Pool_new_def direct_connected)

lemma ram_pool_get: "over_pool hd op (ram_pool, s) =
    (case op (direct_stub ram_os) s of (r, t) \<Rightarrow> Some (r, ram_pool, t))"
  by (simp add: over_pool_def Pool_get_def ram_pool_def Pool_new_def free_at_def Leased_deref_def
      Leased_drop_def Let_def split: prod.split)

lemma direct_plain:
  "m s = (Inr x, t) \<Longrightarrow> client_op (direct (respond (\<lambda>x. x) m)) plain_reply s = (Inr x, t)"
  by (simp add: client_op_def direct_def respond_def plain_reply_def bindE_def map_err_def)

lemma direct_unit:
  "m s = (Inr (), t) \<Longrightarrow> client_op (direct (respond enc m)) unit_reply s = (Inr (), t)"
  by (simp add: client_op_def direct_def respond_def unit_reply_def bindE_def map_err_def)

text \<open>The server after opening its file for reading and writing.\<close>

definition writable_sys :: "(path, ram) sys" where
  "writable_sys = after_request ram_os (Open ''/x'' 2) (ram_sys [1, 2, 3])"

lemma writable_handle:
  "fh (server writable_sys) 0 = Some (srv_root @ [Normal ''x''], srv_root @ [Normal ''x''])"
  "within ram_bytes (\<lambda>f w. opt_append (ram_opts w f)) (srv_root @ [Normal ''x'']) (world writable_sys) 1"
  by (simp_all add: writable_sys_def open_impl_eq within_def fs_eval prog_simps)

theorem client_write_then_read_witness:
  "\<exists>t u v. over_pool hd (\<lambda>c. fuse_write c 0 1 [7, 8] 0) (ram_pool, writable_sys) = Some (Inr 2, ram_pool, t) \<and>
     over_pool hd (\<lambda>c. fuse_flush c 0 0) (ram_pool, t) = Some (Inr (), ram_pool, u) \<and>
     over_pool hd (\<lambda>c. fuse_read c 0 1 5) (ram_pool, u) = Some (Inr [7, 8], ram_pool, v) \<and>
     take 2 [7, 8] = (take 2 [7, 8] :: u8 list)"
proof -
  let ?t = "snd (write_impl ram_os 0 1 [7, 8] 0 writable_sys)"
  let ?u = "snd (flush_impl ram_os 0 0 ?t)"
  let ?v = "snd (read_impl ram_os 0 1 5 ?u)"
  have w: "write_impl ram_os 0 1 [7, 8] 0 writable_sys = (Inr 2, ?t)"
    by (rule run_eqI) (simp add: writable_sys_def open_impl_eq write_impl_eq fs_eval prog_simps)
  have f: "flush_impl ram_os 0 0 ?t = (Inr (), ?u)"
    by (rule run_eqI) (simp add: writable_sys_def open_impl_eq write_impl_eq flush_impl_eq fs_eval prog_simps)
  have r: "read_impl ram_os 0 1 5 ?u = (Inr [7, 8], ?v)"
    by (rule run_eqI) (simp add: writable_sys_def open_impl_eq write_impl_eq flush_impl_eq read_impl_eq ram_meta_def
        fs_eval prog_simps)
  have fw: "over_pool hd (\<lambda>c. fuse_write c 0 1 [7, 8] 0) (ram_pool, writable_sys) = Some (Inr 2, ram_pool, ?t)"
    by (simp add: ram_pool_get fuse_write_def direct_stub_def write_rpc_def direct_plain [of "write_impl ram_os 0 1 [7, 8] 0", OF w])
  have ff: "over_pool hd (\<lambda>c. fuse_flush c 0 0) (ram_pool, ?t) = Some (Inr (), ram_pool, ?u)"
    by (simp add: ram_pool_get fuse_flush_def direct_stub_def flush_rpc_def direct_unit [of "flush_impl ram_os 0 0", OF f])
  have fr: "over_pool hd (\<lambda>c. fuse_read c 0 1 5) (ram_pool, ?u) = Some (Inr [7, 8], ram_pool, ?v)"
    by (simp add: ram_pool_get fuse_read_def direct_stub_def read_rpc_def direct_plain [of "read_impl ram_os 0 1 5", OF r])
  from client_write_then_read [OF ram_file_law ram_write_law writable_handle(1) picks_hd ram_pool_connected _ _ fw ff fr]
    writable_handle(2) fw ff fr
  show ?thesis by auto
qed

text \<open>
  Property C40. No file is ever truncated or extended by \<open>setattr\<close>: the server opens the file for reading only
  before it sets the length, so a \<open>setattr\<close> of the client that sets the size never succeeds, by path or by
  handle; and the change of times and mode in the same request is never attempted, while owner and
  group have been changed already.
\<close>

theorem set_size_never_succeeds:
  assumes "read_only_law os" and "connected os c" and "set_size a = Some n"
  shows "fst (fuse_setattr c q h a s) \<noteq> Inr r \<and>
    set_attr_by_path os p (set_attr_fuse3_to_grpc a) =
    set_attr_by_path os p (set_attr_fuse3_to_grpc (a\<lparr>set_mtime := None, set_atime := None, set_mode := None\<rparr>))"
proof
  let ?impl = "set_attr_impl os (map_option to_string_lossy q) h (Some (set_attr_fuse3_to_grpc a))"
  have size: "s_size (set_attr_fuse3_to_grpc a) = Some n" using assms(3) by (simp add: set_attr_fuse3_to_grpc_def)
  obtain e t where run: "?impl s = (Inl e, t)"
    using set_attr_impl_size_fails [OF assms(1) size] unfolding always_fails_def by (metis prod.collapse)
  have "carries (call_set_attr c (map_option to_string_lossy q) h (Some (set_attr_fuse3_to_grpc a))) shown_attr
      ?impl (fuse_setattr c q h a)"
    using fuse_setattr_carries [OF assms(2)] .
  note op = carriesD [OF this run] and nw = impl_returns(3) [of os "map_option to_string_lossy q" h _ s]
  show "fst (fuse_setattr c q h a s) \<noteq> Inr r"
    using op nw [of "Some (set_attr_fuse3_to_grpc a)"] run
    by (cases "fst (call_set_attr c (map_option to_string_lossy q) h (Some (set_attr_fuse3_to_grpc a)) s)"; cases e)
      (auto simp: reported_def)
  show "set_attr_by_path os p (set_attr_fuse3_to_grpc a) =
    set_attr_by_path os p (set_attr_fuse3_to_grpc (a\<lparr>set_mtime := None, set_atime := None, set_mode := None\<rparr>))"
    using set_size_fails(2) [OF assms(1) size] by (simp add: set_attr_fuse3_to_grpc_def)
qed

lemma ram_read_only_law: "read_only_law ram_os"
  by (auto simp: read_only_law_def ram_os_def ram_open_def ram_set_len_def ram_writable_def read_only_def
      split: option.splits)

definition empty_attr :: SetAttr where
  "empty_attr = \<lparr>set_mode = None, set_uid = None, set_gid = None, set_size = Some 0, set_lock_owner = None,
     set_atime = None, set_mtime = None, set_ctime = None\<rparr>"

theorem set_size_never_succeeds_witness:
  "\<forall>r. fst (fuse_setattr (direct_stub ram_os) (Some ''/x'') (Some 0) empty_attr writable_sys) \<noteq> Inr r"
  using set_size_never_succeeds [OF ram_read_only_law direct_connected, of empty_attr 0] by (simp add: empty_attr_def)

end
