(* ===== verification/Fs_Names.thy ===== *)
theory Fs_Names
  imports Fs_Client
begin

text \<open>
  Which files a client can name. The client turns every path and name into valid UTF-8 before it sends
  them, and the server splits them at the slashes; so no operation by name ever reaches a file whose name
  is not valid UTF-8, although a listing shows such files under a replacement name.
\<close>

section \<open>Pieces of valid strings\<close>

lemma byte_slash: "byte (CHR ''/'') = 47"
  by (simp add: byte_def)

text \<open>A code point of more than one byte contains no slash.\<close>

lemma scan_high_bytes:
  assumes "utf8_scan xs = (n, True)" and "n \<noteq> 1" and "i < n"
  shows "0x80 \<le> safe_get xs i"
proof -
  have "n \<le> 4" and b0: "0x80 \<le> safe_get xs 0"
    and b1: "2 \<le> n \<Longrightarrow> 0x80 \<le> safe_get xs 1" and b2: "3 \<le> n \<Longrightarrow> 0x80 \<le> safe_get xs 2"
    and b3: "4 \<le> n \<Longrightarrow> 0x80 \<le> safe_get xs 3"
    using assms(1,2)
    by (auto simp: utf8_scan_def Let_def cont_byte_def dest: second_ok_ge split: if_splits)
  with assms(3) consider "i = 0" | "i = 1" "2 \<le> n" | "i = 2" "3 \<le> n" | "i = 3" "4 \<le> n" by linarith
  then show ?thesis using b0 b1 b2 b3 by cases simp_all
qed

lemma chunk_no_slash:
  assumes "xs \<noteq> []" and "utf8_scan xs = (n, True)" and "take n xs \<noteq> ''/''"
  shows "CHR ''/'' \<notin> set (take n xs)"
proof
  assume "CHR ''/'' \<in> set (take n xs)"
  then obtain i where i: "i < n" "i < length xs" "xs ! i = CHR ''/''" by (auto simp: in_set_conv_nth)
  then have "safe_get xs i = 47" by (simp add: safe_get_def byte_slash)
  with scan_high_bytes [OF assms(2) _ i(1)] have "n = 1" by fastforce
  with i assms(1,3) show False by (cases xs) auto
qed

lemma split_slash_not_Nil [simp]: "split_slash s \<noteq> []"
  by (cases s) (auto split: list.split)

lemma split_slash_append:
  "CHR ''/'' \<notin> set us \<Longrightarrow> split_slash (us @ s) = (us @ hd (split_slash s)) # tl (split_slash s)"
  by (induction us) auto

lemma split_slash_valid: "utf8_valid s \<Longrightarrow> p \<in> set (split_slash s) \<Longrightarrow> utf8_valid p"
proof (induction s arbitrary: p rule: utf8_valid.induct)
  case (1 s)
  show ?case
  proof (cases "s = []")
    case False
    obtain n v where sc: "utf8_scan s = (n, v)" by fastforce
    from 1(2) False sc have v: "v" and rest: "utf8_valid (drop n s)"
      by (subst (asm) utf8_valid.simps, simp)+
    note ih = 1(1) [OF False] and sc' = sc [unfolded v [THEN eqTrueI]]
    have s: "s = take n s @ drop n s" by simp
    show ?thesis
    proof (cases "take n s = ''/''")
      case True
      with s have "split_slash s = [] # split_slash (drop n s)" by (metis append_Cons append_Nil split_slash.simps(2))
      with 1(3) ih rest sc' show ?thesis by auto
    next
      case chunk: False
      have "split_slash s = (take n s @ hd (split_slash (drop n s))) # tl (split_slash (drop n s))"
        using split_slash_append [OF chunk_no_slash [OF False sc' chunk], of "drop n s"] by simp
      with 1(3) consider "p = take n s @ hd (split_slash (drop n s))" | "p \<in> set (split_slash (drop n s))"
        by (auto dest: list.set_sel(2) [rotated])
      then show ?thesis
      proof cases
        case 1
        with utf8_valid_chunk [OF False sc'] ih rest sc' show ?thesis by auto
      next
        case 2
        with ih rest sc' show ?thesis by auto
      qed
    qed
  qed (use 1 in simp)
qed

section \<open>Paths a client can name\<close>

text \<open>Every name on the path is valid UTF-8, or it is one of the served directory itself.\<close>

definition nameable :: "path \<Rightarrow> path \<Rightarrow> bool" where
  "nameable root q \<longleftrightarrow> (\<forall>c. Normal c \<in> set q \<longrightarrow> utf8_valid c \<or> Normal c \<in> set root)"

lemma nameable_root: "nameable root root"
  by (simp add: nameable_def)

lemma pieces_nameable: "utf8_valid s \<Longrightarrow> nameable root (List.map_filter piece (split_slash s))"
  using split_slash_valid [of s]
  by (auto simp: nameable_def List.map_filter_def piece_def split: if_splits)

lemma components_nameable: "utf8_valid s \<Longrightarrow> nameable root (components s)"
  using pieces_nameable [of s root] by (auto simp: nameable_def components_def)

lemma real_step_nameable: "nameable root q \<Longrightarrow> nameable root [c] \<Longrightarrow> nameable root (real_step root q c)"
  by (auto simp: nameable_def real_step_def path_parent_def split: component.splits dest: in_set_butlastD)

lemma foldl_nameable: "nameable root cs \<Longrightarrow> nameable root q \<Longrightarrow> nameable root (foldl (real_step root) q cs)"
proof (induction cs arbitrary: q)
  case (Cons c cs)
  from Cons.prems(1) have "nameable root [c]" "nameable root cs" by (auto simp: nameable_def)
  with Cons.IH real_step_nameable [OF Cons.prems(2)] show ?case by simp
qed simp

lemma real_path_of_nameable: "nameable root cs \<Longrightarrow> nameable root (real_path_of root cs)"
  by (simp add: real_path_of_def foldl_nameable nameable_root)

lemma real_path_nameable: "utf8_valid s \<Longrightarrow> nameable root (real_path root s)"
  by (simp add: real_path_def real_path_of_nameable components_nameable)

lemma child_path_nameable: "utf8_valid p \<Longrightarrow> utf8_valid n \<Longrightarrow> nameable root (child_path root p n)"
  using real_path_nameable [of p root] pieces_nameable [of n root] components_nameable [of n root]
  by (auto simp: child_path_def path_join_def nameable_def)

lemma parent_nameable: "nameable root q \<Longrightarrow> path_parent q = Some r \<Longrightarrow> nameable root r"
  by (auto simp: nameable_def path_parent_def split: if_splits dest: in_set_butlastD)

section \<open>Operating systems that agree on these paths\<close>

definition same_names :: "path \<Rightarrow> ('f, 'w) os \<Rightarrow> ('f, 'w) os \<Rightarrow> bool" where
  "same_names root os os' \<longleftrightarrow>
     (\<forall>q. nameable root q \<longrightarrow>
        os_metadata os q = os_metadata os' q \<and> os_set_owner os q = os_set_owner os' q \<and>
        os_set_group os q = os_set_group os' q \<and> os_set_mtime os q = os_set_mtime os' q \<and>
        os_set_atime os q = os_set_atime os' q \<and> os_set_permissions os q = os_set_permissions os' q \<and>
        os_mkdir os q = os_mkdir os' q \<and> os_unlink os q = os_unlink os' q \<and>
        os_remove_dir os q = os_remove_dir os' q \<and> os_read_dir os q = os_read_dir os' q \<and>
        os_read_link os q = os_read_link os' q \<and> os_access os q = os_access os' q \<and>
        (\<forall>opts. os_open os opts q = os_open os' opts q) \<and>
        (\<forall>r. nameable root r \<longrightarrow> os_symlink os r q = os_symlink os' r q \<and> os_rename os r q = os_rename os' r q)) \<and>
     os_mode_truncate os = os_mode_truncate os' \<and> file_metadata os = file_metadata os' \<and>
     file_set_len os = file_set_len os'"

lemma same_namesD:
  assumes "same_names root os os'" and "nameable root q"
  shows "os_metadata os q = os_metadata os' q" "os_set_owner os q = os_set_owner os' q"
    "os_set_group os q = os_set_group os' q" "os_set_mtime os q = os_set_mtime os' q"
    "os_set_atime os q = os_set_atime os' q" "os_set_permissions os q = os_set_permissions os' q"
    "os_mkdir os q = os_mkdir os' q" "os_unlink os q = os_unlink os' q"
    "os_remove_dir os q = os_remove_dir os' q" "os_read_dir os q = os_read_dir os' q"
    "os_read_link os q = os_read_link os' q" "os_access os q = os_access os' q"
    "os_open os opts q = os_open os' opts q"
    "nameable root r \<Longrightarrow> os_symlink os r q = os_symlink os' r q"
    "nameable root r \<Longrightarrow> os_rename os r q = os_rename os' r q"
    "os_mode_truncate os = os_mode_truncate os'" "file_metadata os = file_metadata os'"
    "file_set_len os = file_set_len os'"
  using assms unfolding same_names_def by blast+

lemma same_set_attr: "same_names root os os' \<Longrightarrow> nameable root q \<Longrightarrow> set_attr_by_path os q a = set_attr_by_path os' q a"
  by (simp add: set_attr_by_path_def same_namesD [of root os os' q])

lemma same_get_attr: "same_names root os os' \<Longrightarrow> nameable root q \<Longrightarrow> get_attr_from_path os q = get_attr_from_path os' q"
  by (simp add: get_attr_from_path_def same_namesD [of root os os' q])

lemma real_bind: "bindE (real p) f s = f (real_path (root_path (server s)) p) s"
  by (simp add: real_def root_of_def bindE_app)

lemma child_bind: "bindE (child p n) f s = f (child_path (root_path (server s)) p n) s"
  by (simp add: child_def root_of_def bindE_app)

lemma op_cong: "m s = m' s \<Longrightarrow> client_op (direct (respond enc m)) dec s = client_op (direct (respond enc m')) dec s"
  by (simp add: client_op_def direct_def respond_def map_err_def bindE_def)

text \<open>The operations of the server cannot tell such systems apart.\<close>

lemma same_by_name:
  assumes "same_names (root_path (server s)) os os'" and "utf8_valid p" and "utf8_valid n"
  shows "lookup_impl os p n s = lookup_impl os' p n s"
    and "get_attr_impl os (Some p) None fl s = get_attr_impl os' (Some p) None fl s"
    and "set_attr_impl os (Some p) None (Some a) s = set_attr_impl os' (Some p) None (Some a) s"
    and "mkdir_impl os p n m u s = mkdir_impl os' p n m u s"
    and "unlink_impl os p n s = unlink_impl os' p n s"
    and "rmdir_impl os p n s = rmdir_impl os' p n s"
    and "open_impl os p fl s = open_impl os' p fl s"
    and "create_impl os p n m fl s = create_impl os' p n m fl s"
    and "access_impl os p m s = access_impl os' p m s"
    and "readlink_impl os p s = readlink_impl os' p s"
    and "utf8_valid l \<Longrightarrow> symlink_impl os p n l s = symlink_impl os' p n l s"
    and "utf8_valid op \<Longrightarrow> utf8_valid on \<Longrightarrow> rename_impl os op on p n fl s = rename_impl os' op on p n fl s"
proof -
  let ?r = "root_path (server s)"
  note real = real_path_nameable [OF assms(2), of ?r]
    and child = child_path_nameable [OF assms(2,3), of ?r]
    and comps = components_nameable [OF assms(2), of ?r]
  note eqs = same_namesD [OF assms(1) real] same_namesD [OF assms(1) child] same_namesD(11) [OF assms(1) comps]
    same_get_attr [OF assms(1) real] same_get_attr [OF assms(1) child] same_set_attr [OF assms(1) real]
  show "lookup_impl os p n s = lookup_impl os' p n s"
    "get_attr_impl os (Some p) None fl s = get_attr_impl os' (Some p) None fl s"
    "set_attr_impl os (Some p) None (Some a) s = set_attr_impl os' (Some p) None (Some a) s"
    "mkdir_impl os p n m u s = mkdir_impl os' p n m u s"
    "unlink_impl os p n s = unlink_impl os' p n s"
    "rmdir_impl os p n s = rmdir_impl os' p n s"
    "open_impl os p fl s = open_impl os' p fl s"
    "create_impl os p n m fl s = create_impl os' p n m fl s"
    "access_impl os p m s = access_impl os' p m s"
    "readlink_impl os p s = readlink_impl os' p s"
    by (simp_all add: lookup_impl_def get_attr_impl_eq set_attr_impl_eq mkdir_impl_def unlink_impl_def
        rmdir_impl_def open_impl_eq create_impl_eq access_impl_def readlink_impl_def real_bind child_bind eqs Let_def)
  show "symlink_impl os p n l s = symlink_impl os' p n l s" if "utf8_valid l"
    using same_namesD(14) [OF assms(1) child real_path_nameable [OF that]]
    by (simp add: symlink_impl_def child_bind real_bind eqs)
  show "rename_impl os op on p n fl s = rename_impl os' op on p n fl s" if "utf8_valid op" "utf8_valid on"
    using same_namesD(15) [OF assms(1) child child_path_nameable [OF that]]
    by (simp add: rename_impl_def child_bind)
qed

lemma same_list_dir:
  assumes "same_names (root_path (server s)) os os'" and "utf8_valid p"
  shows "list_dir os p s = list_dir os' p s"
proof -
  let ?q = "real_path (root_path (server s)) p"
  have q: "nameable (root_path (server s)) ?q" using real_path_nameable [OF assms(2)] .
  have "(if p = ''/'' then ok es
      else bindE (get_attr_from_path os ?q) (\<lambda>dot. bindE (of_opt Panicked (path_parent ?q)) (\<lambda>up.
        bindE (get_attr_from_path os up) (\<lambda>dotdot. ok (es' dot dotdot))))) =
    (if p = ''/'' then ok es
      else bindE (get_attr_from_path os' ?q) (\<lambda>dot. bindE (of_opt Panicked (path_parent ?q)) (\<lambda>up.
        bindE (get_attr_from_path os' up) (\<lambda>dotdot. ok (es' dot dotdot)))))" for es :: "Entry list" and es'
    using same_get_attr [OF assms(1) q] same_get_attr [OF assms(1) parent_nameable [OF q]]
    by (cases "path_parent ?q") simp_all
  then show ?thesis
    unfolding list_dir_def by (simp add: real_bind same_namesD(10) [OF assms(1) q])
qed

lemma same_opendir:
  assumes "same_names (root_path (server s)) os os'" and "utf8_valid p"
  shows "opendir_impl os p fl s = opendir_impl os' p fl s"
  unfolding opendir_list_dir
  using same_list_dir [of "s\<lparr>server := (server s)\<lparr>fh_src := fh_src (server s) + 1\<rparr>\<rparr>" os os' p] assms
  by (simp add: bindE_app alloc_run)

section \<open>Properties of names\<close>

text \<open>
  Property C31. Files whose names are not valid UTF-8 are out of the client's reach: if two operating systems
  agree on all paths whose names are valid UTF-8 (or belong to the served directory itself), then no
  operation by name can tell them apart or act differently, whatever bytes the client's own path and name
  consist of.
\<close>

theorem invalid_names_unreachable:
  assumes "same_names (root_path (server s)) os os'"
  shows "fuse_lookup (direct_stub os) p n s = fuse_lookup (direct_stub os') p n s \<and>
    fuse_getattr (direct_stub os) (Some p) None fl s = fuse_getattr (direct_stub os') (Some p) None fl s \<and>
    fuse_setattr (direct_stub os) (Some p) None a s = fuse_setattr (direct_stub os') (Some p) None a s \<and>
    fuse_mkdir (direct_stub os) p n m u s = fuse_mkdir (direct_stub os') p n m u s \<and>
    fuse_unlink (direct_stub os) p n s = fuse_unlink (direct_stub os') p n s \<and>
    fuse_rmdir (direct_stub os) p n s = fuse_rmdir (direct_stub os') p n s \<and>
    fuse_open (direct_stub os) p fl s = fuse_open (direct_stub os') p fl s \<and>
    fuse_create (direct_stub os) p n m fl s = fuse_create (direct_stub os') p n m fl s \<and>
    fuse_access (direct_stub os) p m s = fuse_access (direct_stub os') p m s \<and>
    fuse_readlink (direct_stub os) p s = fuse_readlink (direct_stub os') p s \<and>
    fuse_symlink (direct_stub os) p n l s = fuse_symlink (direct_stub os') p n l s \<and>
    fuse_rename2 (direct_stub os) op on p n fl s = fuse_rename2 (direct_stub os') op on p n fl s \<and>
    fuse_opendir (direct_stub os) p fl s = fuse_opendir (direct_stub os') p fl s"
proof -
  note same = same_by_name [OF assms lossy_valid lossy_valid] same_opendir [OF assms lossy_valid]
  show ?thesis
    unfolding fuse_defs direct_stub_def
    by (simp add: lookup_rpc_def get_attr_rpc_def set_attr_rpc_def mkdir_rpc_def unlink_rpc_def rmdir_rpc_def
        open_rpc_def create_rpc_def access_rpc_def readlink_rpc_def symlink_rpc_def rename_rpc_def opendir_rpc_def)
      (intro conjI op_cong same lossy_valid)
qed

text \<open>A system that has a file with an invalid name and refuses to remove it.\<close>

definition odd_name :: string where
  "odd_name = [char_of (0xFF :: nat)]"

definition odd_os :: "(path, ram) os" where
  "odd_os = ram_os\<lparr>os_unlink := (\<lambda>q. if Normal odd_name \<in> set q then fail EACCES else os_unlink ram_os q)\<rparr>"

theorem invalid_names_unreachable_witness:
  "fuse_unlink (direct_stub ram_os) ''/'' odd_name (ram_sys []) = fuse_unlink (direct_stub odd_os) ''/'' odd_name (ram_sys [])"
proof -
  have "\<not> utf8_valid odd_name"
    by (subst utf8_valid.simps) (simp add: odd_name_def utf8_scan_def safe_get_def byte_def Let_def)
  then have "same_names (root_path (server (ram_sys []))) ram_os odd_os"
    by (auto simp: same_names_def odd_os_def nameable_def ram_sys_def Server_new_def srv_root_def odd_name_def)
  from invalid_names_unreachable [OF this] show ?thesis by blast
qed

end
