(* ===== verification/Ip_Sd.thy ===== *)
theory Ip_Sd
  imports Prelude
begin

text \<open>
  The service directory of \<open>src/ip-sd/src/main.rs\<close>: a loop that receives a datagram into a fixed buffer,
  decodes a request from the buffer, and answers a query with the set of registered addresses. The
  serialisation library is a parameter; that it reads one value and leaves the rest of its input alone
  is a hypothesis of the properties.
\<close>

section \<open>Requests and state\<close>

datatype sd_request = Query | Register string

record sd_codec =
  from_slice :: "u8 list \<Rightarrow> string + sd_request"
  to_vec :: "string set \<Rightarrow> string + u8 list"

text \<open>The local variables of \<open>main\<close>, and the datagrams sent so far with their receivers.\<close>

record 'a directory =
  buf :: "u8 list"
  addresses :: "string set"
  sent :: "(u8 list \<times> 'a) list"

definition sd_start :: "'a directory" where
  "sd_start = \<lparr>buf = replicate 2048 0, addresses = {}, sent = []\<rparr>"

lemma sd_start_simps [simp]:
  "length (buf sd_start) = 2048" "addresses sd_start = {}" "sent sd_start = []"
  by (simp_all add: sd_start_def)

text \<open>\<open>recv_from\<close> writes what fits to the front of the buffer and drops the rest of the datagram.\<close>

definition recv_into :: "u8 list \<Rightarrow> u8 list \<Rightarrow> u8 list" where
  "recv_into b d = take (length b) d @ drop (length d) b"

text \<open>
  One round of the loop on what \<open>recv_from\<close> returned, \<^term>\<open>None\<close> for a panic of \<open>unwrap\<close>. Errors of
  receiving, decoding and sending are only logged; a failed send is in \<open>sent\<close> like a lost datagram.
\<close>

definition sd_round :: "sd_codec \<Rightarrow> string + (u8 list \<times> 'a) \<Rightarrow> 'a directory \<Rightarrow> 'a directory option" where
  "sd_round codec received st = (case received of
      Inl e \<Rightarrow> Some st
    | Inr (d, addr) \<Rightarrow>
        (let st = st\<lparr>buf := recv_into (buf st) d\<rparr>
         in case from_slice codec (buf st) of
              Inl e \<Rightarrow> Some st
            | Inr Query \<Rightarrow> (case to_vec codec (addresses st) of
                Inl e \<Rightarrow> None
              | Inr res \<Rightarrow> Some (st\<lparr>sent := sent st @ [(res, addr)]\<rparr>))
            | Inr (Register a) \<Rightarrow> Some (st\<lparr>addresses := insert a (addresses st)\<rparr>)))"

fun sd_loop :: "sd_codec \<Rightarrow> (string + (u8 list \<times> 'a)) list \<Rightarrow> 'a directory \<Rightarrow> 'a directory option" where
  "sd_loop codec [] st = Some st"
| "sd_loop codec (e # es) st = (case sd_round codec e st of None \<Rightarrow> None | Some st' \<Rightarrow> sd_loop codec es st')"

section \<open>The directory as it is meant\<close>

text \<open>A set of names; a query is answered with the names registered before it.\<close>

fun registered :: "(sd_request \<times> 'a) list \<Rightarrow> string set \<Rightarrow> string set" where
  "registered [] S = S"
| "registered ((Query, _) # rs) S = registered rs S"
| "registered ((Register a, _) # rs) S = registered rs (insert a S)"

fun answers :: "(sd_request \<times> 'a) list \<Rightarrow> string set \<Rightarrow> (string set \<times> 'a) list" where
  "answers [] S = []"
| "answers ((Query, x) # rs) S = (S, x) # answers rs S"
| "answers ((Register a, _) # rs) S = answers rs (insert a S)"

text \<open>
  The library's part: requests have encodings that fit the buffer and are decoded whatever follows them,
  and every set of names can be encoded.
\<close>

definition codec_law :: "sd_codec \<Rightarrow> (sd_request \<Rightarrow> u8 list) \<Rightarrow> (string set \<Rightarrow> u8 list) \<Rightarrow> sd_request set \<Rightarrow> bool" where
  "codec_law codec req res Q \<longleftrightarrow>
     (\<forall>r \<in> Q. length (req r) \<le> 2048 \<and> (\<forall>rest. from_slice codec (req r @ rest) = Inr r)) \<and>
     (\<forall>S. to_vec codec S = Inr (res S))"

lemma codec_lawD:
  assumes "codec_law codec req res Q"
  shows "r \<in> Q \<Longrightarrow> length (req r) \<le> 2048" and "r \<in> Q \<Longrightarrow> from_slice codec (req r @ rest) = Inr r"
    and "to_vec codec S = Inr (res S)"
  using assms by (auto simp: codec_law_def)

lemma recv_into_length [simp]: "length (recv_into b d) = length b"
  by (simp add: recv_into_def)

lemma sd_round_length: "sd_round codec e st = Some st' \<Longrightarrow> length (buf st') = length (buf st)"
  by (auto simp: sd_round_def Let_def split: sum.splits prod.splits sd_request.splits)

lemma sd_round_request:
  assumes "codec_law codec req res Q" and "r \<in> Q" and "length (buf st) = 2048"
  shows "sd_round codec (Inr (req r, x)) st = Some
    (let st = st\<lparr>buf := req r @ drop (length (req r)) (buf st)\<rparr>
     in case r of Query \<Rightarrow> st\<lparr>sent := sent st @ [(res (addresses st), x)]\<rparr>
        | Register a \<Rightarrow> st\<lparr>addresses := insert a (addresses st)\<rparr>)"
  using codec_lawD [OF assms(1)] assms(2,3)
  by (auto simp: sd_round_def recv_into_def Let_def split: sd_request.splits)

lemma sd_loop_requests:
  assumes "codec_law codec req res Q" and "fst ` set rs \<subseteq> Q" and "length (buf st) = 2048"
  shows "\<exists>st'. sd_loop codec (map (\<lambda>(r, x). Inr (req r, x)) rs) st = Some st' \<and>
    addresses st' = registered rs (addresses st) \<and>
    sent st' = sent st @ map (\<lambda>(S, x). (res S, x)) (answers rs (addresses st)) \<and> length (buf st') = 2048"
  using assms(2,3)
proof (induction rs arbitrary: st)
  case (Cons q rs)
  obtain r x where q: "q = (r, x)" by fastforce
  with Cons.prems have r: "r \<in> Q" "fst ` set rs \<subseteq> Q" by auto
  obtain st1 where st1: "sd_round codec (Inr (req r, x)) st = Some st1"
    using sd_round_request [OF assms(1) r(1) Cons.prems(2)] by fastforce
  have len: "length (buf st1) = 2048" using sd_round_length [OF st1] Cons.prems(2) by simp
  from Cons.IH [OF r(2) len] st1 sd_round_request [OF assms(1) r(1) Cons.prems(2), of x] show ?case
    by (cases r) (auto simp: q Let_def)
qed simp

section \<open>Properties of the directory\<close>

text \<open>
  Property C39. The loop implements the directory: fed with the encodings of any sequence of requests it never
  panics, it ends up with exactly the registered names, and it has answered every query, in order and to
  its sender, with exactly the names registered before it, whatever earlier requests left in the buffer.
\<close>

theorem sd_loop_refines_directory:
  assumes "codec_law codec req res Q" and "fst ` set rs \<subseteq> Q"
  shows "\<exists>st. sd_loop codec (map (\<lambda>(r, x). Inr (req r, x)) rs) sd_start = Some st \<and>
    addresses st = registered rs {} \<and> sent st = map (\<lambda>(S, x). (res S, x)) (answers rs {})"
  using sd_loop_requests [OF assms, of sd_start] by auto

text \<open>
  An instance: the MessagePack encoding of the requests, for names of fewer than 32 bytes; a response
  only tells whether the set is empty.
\<close>

definition octet :: "char \<Rightarrow> u8" where
  "octet c = of_nat (of_char c)"

definition unoctet :: "u8 \<Rightarrow> char" where
  "unoctet b = char_of (unat b)"

lemma unoctet_octet [simp]: "unoctet (octet c) = c"
  by (simp add: unoctet_def octet_def unat_of_nat)

definition pack_req :: "sd_request \<Rightarrow> u8 list" where
  "pack_req r = (case r of
      Query \<Rightarrow> 0xA5 # map octet ''Query''
    | Register a \<Rightarrow> [0x81, 0xA8] @ map octet ''Register'' @ (0xA0 + of_nat (length a)) # map octet a)"

definition unpack_req :: "u8 list \<Rightarrow> string + sd_request" where
  "unpack_req bs =
     (if take 6 bs = 0xA5 # map octet ''Query'' then Inr Query
      else if take 10 bs = [0x81, 0xA8] @ map octet ''Register'' then
        (let n = unat (hd (drop 10 bs) - 0xA0) in Inr (Register (map unoctet (take n (drop 11 bs)))))
      else Inl ''invalid'')"

definition pack_res :: "string set \<Rightarrow> u8 list" where
  "pack_res S = (if S = {} then [0x90] else [0x91])"

definition pack_codec :: sd_codec where
  "pack_codec = \<lparr>from_slice = unpack_req, to_vec = (\<lambda>S. Inr (pack_res S))\<rparr>"

lemma unpack_pack:
  assumes "\<And>a. r = Register a \<Longrightarrow> length a < 32"
  shows "unpack_req (pack_req r @ rest) = Inr r"
proof (cases r)
  case (Register a)
  have "unat (of_nat (length a) :: u8) = length a"
    using assms [OF Register] by (simp add: unat_of_nat)
  with Register show ?thesis by (simp add: unpack_req_def pack_req_def comp_def Let_def)
qed (simp add: unpack_req_def pack_req_def)

lemma pack_law: "codec_law pack_codec pack_req pack_res {r. \<forall>a. r = Register a \<longrightarrow> length a < 32}"
  by (auto simp: codec_law_def pack_codec_def unpack_pack) (auto simp: pack_req_def split: sd_request.splits)

theorem sd_loop_refines_directory_witness:
  "\<exists>st. sd_loop pack_codec (map (\<lambda>(r, x). Inr (pack_req r, x)) [(Register ''10.0.0.1'', 1 :: nat), (Query, 2)]) sd_start = Some st \<and>
     addresses st = {''10.0.0.1''} \<and> sent st = [([0x91], 2)]"
  using sd_loop_refines_directory [OF pack_law, of "[(Register ''10.0.0.1'', 1 :: nat), (Query, 2)]"]
  by (simp add: pack_res_def)

text \<open>
  The length of a datagram is ignored: after a request the buffer still holds it, and an
  empty datagram from anyone repeats it, so that a query is answered to the sender of the empty datagram.
\<close>

lemma sd_empty_datagram_repeats:
  assumes "codec_law codec req res Q" and "r \<in> Q" and "length (buf st) = 2048"
    and "sd_round codec (Inr (req r, x)) st = Some st'"
  shows "sd_round codec (Inr ([], y)) st' = sd_round codec (Inr (req r, y)) st' \<and>
    (r = Query \<longrightarrow> (\<exists>st''. sd_round codec (Inr ([], y)) st' = Some st'' \<and>
       sent st'' = sent st @ [(res (addresses st), x), (res (addresses st), y)]))"
proof -
  have b: "buf st' = req r @ drop (length (req r)) (buf st)"
    using assms(4) sd_round_request [OF assms(1-3), of x] by (auto simp: Let_def split: sd_request.splits)
  have len: "length (buf st') = 2048" using sd_round_length [OF assms(4)] assms(3) by simp
  have "recv_into (buf st') [] = recv_into (buf st') (req r)"
    using codec_lawD(1) [OF assms(1,2)] len b by (simp add: recv_into_def)
  then have eq: "sd_round codec (Inr ([], y)) st' = sd_round codec (Inr (req r, y)) st'"
    by (simp add: sd_round_def Let_def cong del: sum.case_cong_weak sd_request.case_cong_weak)
  from sd_round_request [OF assms(1,2) len, of y] sd_round_request [OF assms(1-3), of x] assms(4) show ?thesis
    unfolding eq by (auto simp: Let_def)
qed

lemma sd_empty_datagram_sample:
  "\<exists>st' st''. sd_round pack_codec (Inr (pack_req Query, 1 :: nat)) sd_start = Some st' \<and>
     sd_round pack_codec (Inr ([], 2)) st' = Some st'' \<and> sent st'' = [([0x90], 1), ([0x90], 2)]"
proof -
  have q: "Query \<in> {r. \<forall>a. r = Register a \<longrightarrow> length a < 32}" by simp
  note run = sd_round_request [OF pack_law q sd_start_simps(1), of "1 :: nat"]
  from sd_empty_datagram_repeats [OF pack_law q sd_start_simps(1) run, of 2, THEN conjunct2]
  have "\<exists>st''. sd_round pack_codec (Inr ([], 2 :: nat)) (the (sd_round pack_codec (Inr (pack_req Query, 1)) sd_start)) = Some st'' \<and>
      sent st'' = [([0x90], 1), ([0x90], 2)]"
    unfolding run by (auto simp: pack_res_def simp del: One_nat_def)
  with run show ?thesis by (metis option.sel)
qed

end
