(* ===== verification/Spec2Isabelle.thy ===== *)
theory Spec2Isabelle
  imports Raft_Store Raft_Timer Raft_Elections Ring_History Fs_System Fs_Names Ip_Sd
begin

text \<open>
  \<^bold>\<open>Verification of the distributed programming exercises.\<close>

  The repository holds four Rust programs: a Raft server (\<open>raft2\<close>), a ring membership service (\<open>ring-rs\<close>),
  a network file system (\<open>distfs\<close>) and a UDP service directory (\<open>ip-sd\<close>). Each is modelled by a group of
  theories over one prelude; the definitions keep the names of the functions they translate.

  \<^bold>\<open>Conventions.\<close> An \<open>async fn\<close> that works on a locked state and returns a \<open>Result\<close> is a program
  \<open>'s \<Rightarrow> (error + value) \<times> 's\<close> of \<open>Prelude\<close>: the \<open>?\<close> operator is \<open>bindE\<close>, and a mutation made before an early return stays.
  Where a function gives its lock back in the middle, each stretch under the lock is a program of its own and the
  stretches of different nodes interleave as events. Integers of 8 to 64 bits are words; a \<open>usize\<close> is a natural
  number, with the wrap-around of the release profile written out where it can occur (\<open>usize_add\<close>, \<open>usize_sub\<close>).
  A panic is an error value, and so is a task that waits for a lock it holds itself. Libraries are parameters
  with their documented behaviour as hypotheses, and an instance of each is given: files and JSON of Raft
  (\<open>raft_io\<close>), address printing of the ring (\<open>net\<close>), operating system, stub and transport of the file system
  (\<open>os\<close>, \<open>stub\<close>, \<open>delivers\<close>), serialisation of the directory (\<open>sd_codec\<close>). Only the locks of
  the file server are modelled as they are documented (a fair lock with readers and one writer), in \<open>Fs_Locks\<close>.

  \<^bold>\<open>Prelude.\<close> Programs and their laws, the preservation calculus \<open>keeps\<close>, transition systems (\<open>reaches\<close>)
  with the locale \<open>counted_system\<close>: an invariant that may mention the number of steps, up to a limit. The limit
  is \<open>2^64\<close> events or requests where a 64-bit counter grows by at most one per step (terms, handles), and
  arbitrary elsewhere.

  \<^bold>\<open>Raft\<close> (\<open>src/raft2/src/lib.rs\<close>, routes in \<open>main.rs\<close>).
  \<^item> \<open>Raft_Node\<close>: \<open>State\<close>, \<open>VariableState\<close>, \<open>Persistent\<close>, \<open>Role\<close>, the messages, \<open>append_entries\<close>, \<open>request_vote\<close>,
    \<open>get_log\<close>, and the stretches of \<open>send_append_entries\<close> (begin, build, reply, finish) and \<open>open_election\<close>
    (begin, request, finish). Shown: when requests are accepted, what the log is afterwards, that nothing panics.
  \<^item> \<open>Raft_Store\<close>: \<open>save_persistent\<close> and \<open>from_file\<close> over a file with a position. Shown: a restart restores what was
    saved; answers are handed to the file before they are given, and what the disk can hold until they are written.
  \<^item> \<open>Raft_Replication\<close>: a leader's rounds with one follower. Shown: the logs become equal, with a bound.
  \<^item> \<open>Raft_Timer\<close>: \<open>launch\<close>, the random wait and the heartbeat loop in milliseconds. Shown: heartbeats hold off
    elections, and silence opens one within two timeouts. The choices list is the fuel of \<open>launch\<close>; one more choice than
    messages is shown to be enough.
  \<^item> \<open>Raft_Cluster\<close>: servers, running elections and appends as a transition system (\<open>exec\<close>, \<open>reach\<close>), with timeouts,
    lost answers and late requests. Shown: well-formed logs, monotone terms, append-only leaders.
  \<^item> \<open>Raft_Elections\<close>: the history of votes. Shown: two winners of one term share an elector, and every shared
    elector was itself a candidate; double votes happen only so; and they do happen.

  \<^bold>\<open>Ring\<close> (\<open>src/ring-rs/src/main.rs\<close>).
  \<^item> \<open>Ring_Addr\<close>: IPv4 socket addresses, printing and parsing; the locale \<open>addr_net\<close> and its interpretation \<open>sock\<close>.
  \<^item> \<open>Ring_Node\<close>: nodes, background tasks, pointer updates, join with rollback (its call to the predecessor may be lost on the way
    there or back), graceful shutdown, recovery, the list, election and coordinate messages, the loops of \<open>main\<close>.
  \<^item> \<open>Ring_Members\<close>: the well-formed ring \<open>ring_ok\<close>; joining, leaving, what a failed join leaves, and recovering.
  \<^item> \<open>Ring_Messages\<close>: the locale \<open>relay\<close> of a message that goes around once, interpreted for the three messages.
    Shown: an election ends with the smallest name as only coordinator; a list round tells everyone the members.
  \<^item> \<open>Ring_History\<close>: all of this in any order (\<open>ring_step\<close>), each operation running to its end. Shown: the live processes
    always form one ring.

  \<^bold>\<open>File system\<close> (\<open>src/distfs/src\<close>).
  \<^item> \<open>Fs_Conv\<close>: \<open>type_conv.rs\<close>. \<open>Os_Str\<close>: the lossy conversion of names to UTF-8. \<open>Fs_Path\<close>: paths and \<open>real_path\<close>, against
    the reference \<open>resolve_path\<close>.
  \<^item> \<open>Fs_Locks\<close>: read-write locks, guards, and requests as tasks that start with all locks free. \<open>Fs_Server\<close>: all 23
    operations of \<open>server.rs\<close> with the locks they take. \<open>Fs_Unlocked\<close>: the same operations as programs without locks, and the
    two that wait for themselves. \<open>Fs_Waits\<close>: no other request ever does, and what the locks of a waiting one block.
  \<^item> \<open>Fs_Handles\<close>: the locale \<open>handle_table\<close> of the two tables; handles are never reused, and closed handles stay closed.
    \<open>Fs_Files\<close>: reading, writing and listing under the contracts \<open>file_law\<close> and \<open>write_law\<close> (files that write in the
    background, files opened for appending).
  \<^item> \<open>Fs_Rpc\<close>: the procedures that wrap the operations into responses, the stub, and the locale \<open>rpc_codec\<close> between the two
    ends. \<open>Fs_Client\<close>: the operations of \<open>client.rs\<close>; each carries the server's operation behind it.
    \<open>Fs_Names\<close>: names that are not valid UTF-8 are out of reach.
  \<^item> \<open>Fs_Mux\<close>: the pool of \<open>mux.rs\<close> and \<open>Distfs::new\<close>; leases are exclusive. \<open>Fs_System\<close>: pool, client, transport, server
    and files together; what was written and flushed is read back, and no size is ever set.

  \<^bold>\<open>Directory\<close> (\<open>src/ip-sd/src/main.rs\<close>). \<open>Ip_Sd\<close>: the receive loop refines a set of names.

  \<^bold>\<open>Not modelled.\<close> Command lines, logging, sockets and the module list (\<open>main.rs\<close> of \<open>distfs\<close> and parts of the other \<open>main.rs\<close>,
  \<open>lib.rs\<close> of \<open>distfs\<close>), build scripts, the byte format of protocol messages and JSON, IPv6 addresses. In the cluster
  a timeout may happen at any time (the clocks are in \<open>Raft_Timer\<close>), and servers do not restart (restarting is in
  \<open>Raft_Store\<close>). Operations of the ring do not interleave with one another, and requests to the file server are
  served one at a time, each starting with all locks free, although the locks allow them to overlap on different files
  and a request that waits for itself keeps its locks (what these do to the next request is in \<open>Fs_Waits\<close>).
  \<open>set_attr::grpc_to_fuse3\<close> of \<open>type_conv.rs\<close> is never called. The C exercises under
  \<open>intro\<close> and \<open>ring\<close> are in another language.
\<close>

end
